theory Spec2Isabelle
  imports Main "HOL-Library.Signed_Division"
begin

section \<open>Memory, pointers and undefined behaviour\<close>

text \<open>
  MyString.c works on heap pointers: a \<^verbatim>\<open>MyString *\<close> points to a struct holding a
  \<^verbatim>\<open>char *\<close> and an \<^verbatim>\<open>unsigned long\<close>. The model keeps an explicit store. A pointer
  is an address or NULL (\<open>None\<close>). A block of chars is live from the allocation that
  returns it until it is freed, and has exactly the size that was requested. C leaves
  the behaviour undefined when a program reads or writes outside a live block or uses a
  pointer to a freed one; the model returns a \<open>fault\<close> there (\<open>Inl\<close>) and says nothing more
  about that run.
\<close>

type_synonym addr = nat

datatype fault =
    NullPointer       \<comment> \<open>a NULL pointer is dereferenced\<close>
  | Dangling          \<comment> \<open>a pointer to storage that is not live is used\<close>
  | OutOfBounds       \<comment> \<open>a read or write goes past the end of a block\<close>
  | Overlap           \<comment> \<open>memcpy between overlapping objects\<close>
  | Unrepresentable   \<comment> \<open>a scanned number does not fit the int it is stored in\<close>

text \<open>\<^verbatim>\<open>typedef struct _MyString { char *_chars; unsigned long _length; } MyString;\<close>\<close>

record MyString =
  m_chars :: "addr option"
  m_length :: nat

text \<open>A \<^verbatim>\<open>FILE\<close> opened for writing: what was written, whether it has been closed, and
  whether the device refuses output (so that fprintf returns a negative value).\<close>

record FILE =
  written :: string
  closed :: bool
  refusing :: bool

text \<open>
  The store. \<open>brk\<close> is the next address the allocator hands out (addresses are never
  handed out twice, so a freed address stays dead). \<open>grants\<close> lists the outcomes of the
  allocation requests to come (\<open>False\<close>: the request returns NULL); when the list is
  used up every request is granted. \<open>junk\<close> is the indeterminate content of fresh
  storage.
\<close>

record heap =
  structs :: "addr \<Rightarrow> MyString option"
  blocks :: "addr \<Rightarrow> string option"
  files :: "addr \<Rightarrow> FILE option"
  brk :: addr
  grants :: "bool list"
  junk :: char

type_synonym 'a prog = "heap \<Rightarrow> fault + 'a \<times> heap"

definition ret :: "'a \<Rightarrow> 'a prog" where
  "ret x = (\<lambda>h. Inr (x, h))"

definition ub :: "fault \<Rightarrow> 'a prog" where
  "ub e = (\<lambda>h. Inl e)"

definition bnd :: "'a prog \<Rightarrow> ('a \<Rightarrow> 'b prog) \<Rightarrow> 'b prog" where
  "bnd m f = (\<lambda>h. case m h of Inl e \<Rightarrow> Inl e | Inr (x, h') \<Rightarrow> f x h')"

text \<open>\<^verbatim>\<open>unsigned long\<close> is 64 bits wide (the unit test of myStringMemUsage expects
  \<^verbatim>\<open>sizeof(MyString)\<close> to be 16); sums of lengths wrap around at \<open>2 ^ 64\<close>.\<close>

definition ulong :: "nat \<Rightarrow> nat" where
  "ulong n = n mod 2 ^ 64"

subsection \<open>The allocator\<close>

definition granted :: "bool prog" where
  "granted = (\<lambda>h. case grants h of
       [] \<Rightarrow> Inr (True, h)
     | b # bs \<Rightarrow> Inr (b, h\<lparr>grants := bs\<rparr>))"

text \<open>\<^verbatim>\<open>malloc(n)\<close>: NULL, or a fresh block of n indeterminate chars.\<close>

definition malloc :: "nat \<Rightarrow> addr option prog" where
  "malloc n = bnd granted (\<lambda>ok h.
     if ok
     then Inr (Some (brk h),
               h\<lparr>blocks := (blocks h)(brk h \<mapsto> replicate n (junk h)), brk := Suc (brk h)\<rparr>)
     else Inr (None, h))"

text \<open>\<^verbatim>\<open>(MyString *) malloc(sizeof(MyString))\<close>: NULL, or a fresh struct with
  indeterminate fields.\<close>

definition malloc_MyString :: "addr option prog" where
  "malloc_MyString = bnd granted (\<lambda>ok h.
     if ok
     then Inr (Some (brk h),
               h\<lparr>structs := (structs h)(brk h \<mapsto> \<lparr>m_chars = None, m_length = 0\<rparr>),
                 brk := Suc (brk h)\<rparr>)
     else Inr (None, h))"

text \<open>
  \<^verbatim>\<open>realloc(p, n)\<close>: with p NULL it is \<^verbatim>\<open>malloc(n)\<close>. With p a live block and n zero it
  frees p and returns NULL: C leaves the choice to the implementation, and this is what
  the GNU C library, on which the Makefile builds and the tests run, does on every such
  call. Otherwise, on failure NULL is returned and the old block stays live; on success
  the old block is gone and the new one starts with the old content, cut or extended by
  indeterminate chars to n.
\<close>

definition resized :: "nat \<Rightarrow> string \<Rightarrow> char \<Rightarrow> string" where
  "resized n bs j = take n bs @ replicate (n - length bs) j"

definition realloc :: "addr option \<Rightarrow> nat \<Rightarrow> addr option prog" where
  "realloc p n = (case p of
       None \<Rightarrow> malloc n
     | Some a \<Rightarrow> (\<lambda>h. case blocks h a of
           None \<Rightarrow> Inl Dangling
         | Some bs \<Rightarrow>
             if n = 0 then Inr (None, h\<lparr>blocks := (blocks h)(a := None)\<rparr>)
             else bnd granted (\<lambda>ok h.
               if ok
               then Inr (Some (brk h),
                         h\<lparr>blocks := ((blocks h)(a := None))
                                        (brk h \<mapsto> resized n bs (junk h)),
                           brk := Suc (brk h)\<rparr>)
               else Inr (None, h)) h))"

text \<open>\<^verbatim>\<open>free(p)\<close> on a block of chars: nothing for NULL, undefined for a dead block.\<close>

definition free :: "addr option \<Rightarrow> unit prog" where
  "free p = (case p of
       None \<Rightarrow> ret ()
     | Some a \<Rightarrow> (\<lambda>h. case blocks h a of
           None \<Rightarrow> Inl Dangling
         | Some _ \<Rightarrow> Inr ((), h\<lparr>blocks := (blocks h)(a := None)\<rparr>)))"

text \<open>\<^verbatim>\<open>free(str)\<close> on a struct.\<close>

definition free_MyString :: "addr \<Rightarrow> unit prog" where
  "free_MyString a = (\<lambda>h. case structs h a of
       None \<Rightarrow> Inl Dangling
     | Some _ \<Rightarrow> Inr ((), h\<lparr>structs := (structs h)(a := None)\<rparr>))"

subsection \<open>Reading and writing\<close>

text \<open>The struct behind a non-NULL \<^verbatim>\<open>MyString *\<close>, and assignments to its two fields.\<close>

definition deref :: "addr \<Rightarrow> MyString prog" where
  "deref a = (\<lambda>h. case structs h a of None \<Rightarrow> Inl Dangling | Some s \<Rightarrow> Inr (s, h))"

definition set_chars :: "addr \<Rightarrow> addr option \<Rightarrow> unit prog" where
  "set_chars a c = (\<lambda>h. case structs h a of
       None \<Rightarrow> Inl Dangling
     | Some s \<Rightarrow> Inr ((), h\<lparr>structs := (structs h)(a \<mapsto> s\<lparr>m_chars := c\<rparr>)\<rparr>))"

definition set_length :: "addr \<Rightarrow> nat \<Rightarrow> unit prog" where
  "set_length a n = (\<lambda>h. case structs h a of
       None \<Rightarrow> Inl Dangling
     | Some s \<Rightarrow> Inr ((), h\<lparr>structs := (structs h)(a \<mapsto> s\<lparr>m_length := n\<rparr>)\<rparr>))"

text \<open>Reading the n chars at \<open>p\<close>, and writing chars at \<open>p + off\<close>.\<close>

definition rd :: "addr option \<Rightarrow> nat \<Rightarrow> string prog" where
  "rd p n = (case p of
       None \<Rightarrow> ub NullPointer
     | Some a \<Rightarrow> (\<lambda>h. case blocks h a of
           None \<Rightarrow> Inl Dangling
         | Some bs \<Rightarrow> if n \<le> length bs then Inr (take n bs, h) else Inl OutOfBounds))"

definition wr :: "addr option \<Rightarrow> nat \<Rightarrow> string \<Rightarrow> unit prog" where
  "wr p off cs = (case p of
       None \<Rightarrow> ub NullPointer
     | Some a \<Rightarrow> (\<lambda>h. case blocks h a of
           None \<Rightarrow> Inl Dangling
         | Some bs \<Rightarrow>
             if off + length cs \<le> length bs
             then Inr ((), h\<lparr>blocks := (blocks h)
                      (a \<mapsto> take off bs @ cs @ drop (off + length cs) bs)\<rparr>)
             else Inl OutOfBounds))"

text \<open>\<^verbatim>\<open>memcpy(dst + off, src, n)\<close> between two blocks of the store.\<close>

definition memcpy :: "addr option \<Rightarrow> nat \<Rightarrow> addr option \<Rightarrow> nat \<Rightarrow> unit prog" where
  "memcpy dst off src n =
     (if dst = src \<and> dst \<noteq> None \<and> 0 < n \<and> off < n then ub Overlap
      else bnd (rd src n) (\<lambda>cs. wr dst off cs))"

text \<open>\<^verbatim>\<open>memcmp\<close>: the chars are compared as unsigned char; the result has the sign of
  the difference of the first pair that differs (here it is that difference).\<close>

fun memcmp_chars :: "string \<Rightarrow> string \<Rightarrow> int" where
  "memcmp_chars (x # xs) (y # ys) =
     (if x = y then memcmp_chars xs ys else int (of_char x) - int (of_char y))"
| "memcmp_chars _ _ = 0"

definition memcmp :: "addr option \<Rightarrow> addr option \<Rightarrow> nat \<Rightarrow> int prog" where
  "memcmp p q n = bnd (rd p n) (\<lambda>xs. bnd (rd q n) (\<lambda>ys. ret (memcmp_chars xs ys)))"

section \<open>MyString.h\<close>

text \<open>
  Modelled from the spec: MyString.h is not among the sources. Its constants are taken
  as the spec and the unit tests of MyString.c give them: the tests print \<open>-999\<close> for
  \<^verbatim>\<open>MYSTR_ERROR_CODE\<close>, \<open>1\<close>, \<open>-1\<close> and \<open>0\<close> for the three outcomes of a comparison, \<open>1\<close>
  and \<open>0\<close> for the outcome of myStringEqual (\<^verbatim>\<open>TRUE\<close> and \<^verbatim>\<open>FALSE\<close>, here \<open>C_TRUE\<close> and
  \<open>C_FALSE\<close>). The terminator, the empty length and the divider are what their names
  and their uses say: \<^verbatim>\<open>'\0'\<close>, \<open>0\<close> and \<open>10\<close>.
  \<^verbatim>\<open>MyStringRetVal\<close> is an enum of two enumerators. Where the code converts the
  enumerator \<^verbatim>\<open>MYSTRING_ERROR\<close> to a number, the number is a parameter \<open>E\<close> of the
  model.
\<close>

datatype MyStringRetVal = MYSTRING_SUCCESS | MYSTRING_ERROR

definition MYSTR_ERROR_CODE :: int where "MYSTR_ERROR_CODE = - 999"
definition STR1_BIGGER :: int where "STR1_BIGGER = 1"
definition STR2_BIGGER :: int where "STR2_BIGGER = - 1"
definition EQUAL_STRINGS :: int where "EQUAL_STRINGS = 0"
definition C_TRUE :: int where "C_TRUE = 1"
definition C_FALSE :: int where "C_FALSE = 0"
definition END_OF_C_STRING :: char where "END_OF_C_STRING = CHR 0x00"
definition EMPTY_STRING_LENGTH :: nat where "EMPTY_STRING_LENGTH = 0"
definition DIGIT_DIVIDER :: int where "DIGIT_DIVIDER = 10"

section \<open>MyString.c\<close>

subsection \<open>Helpers of the model\<close>

definition lift :: "fault + 'a \<Rightarrow> 'a prog" where
  "lift r = (\<lambda>h. case r of Inl e \<Rightarrow> Inl e | Inr x \<Rightarrow> Inr (x, h))"

text \<open>\<^verbatim>\<open>str -> _chars\<close> for a non-NULL str.\<close>

definition chars_of :: "addr \<Rightarrow> addr option prog" where
  "chars_of a = bnd (deref a) (\<lambda>s. ret (m_chars s))"

text \<open>The chars from a \<^verbatim>\<open>char *\<close> to the end of the block it points to, and the char at
  \<^verbatim>\<open>p[i]\<close>.\<close>

definition object_at :: "addr option \<Rightarrow> string prog" where
  "object_at p = (case p of
       None \<Rightarrow> ub NullPointer
     | Some a \<Rightarrow> (\<lambda>h. case blocks h a of None \<Rightarrow> Inl Dangling | Some bs \<Rightarrow> Inr (bs, h)))"

definition char_at :: "string \<Rightarrow> nat \<Rightarrow> fault + char" where
  "char_at cs i = (if i < length cs then Inr (cs ! i) else Inl OutOfBounds)"

definition rd_at :: "addr option \<Rightarrow> nat \<Rightarrow> char prog" where
  "rd_at p i = bnd (object_at p) (\<lambda>bs. lift (char_at bs i))"

subsection \<open>Static helpers\<close>

text \<open>\<^verbatim>\<open>getCStringLength\<close> counts up to the first \<^verbatim>\<open>'\0'\<close>. The argument is the chars from
  the pointer to the end of its object; with no \<^verbatim>\<open>'\0'\<close> among them the loop reads past
  the object.\<close>

fun getCStringLength :: "string \<Rightarrow> fault + nat" where
  "getCStringLength [] = Inl OutOfBounds"
| "getCStringLength (c # cs) =
     (if c = END_OF_C_STRING then Inr 0
      else case getCStringLength cs of Inl e \<Rightarrow> Inl e | Inr n \<Rightarrow> Inr (Suc n))"

text \<open>\<^verbatim>\<open>adjustMyStringLength(&str -> _chars, &str -> _length, newSize)\<close>: every call passes
  the addresses of the two fields of one struct, so the model takes the struct.\<close>

definition adjustMyStringLength :: "addr \<Rightarrow> nat \<Rightarrow> MyStringRetVal prog" where
  "adjustMyStringLength a newSize =
     bnd (chars_of a) (\<lambda>old.
     bnd (realloc old newSize) (\<lambda>c.
     bnd (set_chars a c) (\<lambda>_.
       if c = None then ret MYSTRING_ERROR
       else bnd (set_length a newSize) (\<lambda>_. ret MYSTRING_SUCCESS))))"

text \<open>\<^verbatim>\<open>getNumOfDigits\<close>; \<^verbatim>\<open>/\<close> on int truncates towards zero.\<close>

function digits_loop :: "int \<Rightarrow> int \<Rightarrow> int" where
  "digits_loop n numOfDigits =
     (if n = 0 then numOfDigits else digits_loop (n sdiv DIGIT_DIVIDER) (numOfDigits + 1))"
  by pat_completeness auto
termination
  by (relation "measure (\<lambda>(n, d). nat \<bar>n\<bar>)")
     (auto simp: DIGIT_DIVIDER_def signed_divide_int_def sgn_if abs_if)

declare digits_loop.simps [simp del]

definition getNumOfDigits :: "int \<Rightarrow> int" where
  "getNumOfDigits n =
     (let numOfDigits = (if n \<le> 0 then 1 else 0)
      in if n = 0 then numOfDigits else digits_loop n numOfDigits)"

text \<open>The two loops over the source of a filter. \<open>k\<close> counts the iterations left of
  \<^verbatim>\<open>for (i = 0; i < length; i++)\<close>; \<open>i\<close> is how far \<^verbatim>\<open>str\<close> has advanced, \<open>j\<close> how far
  \<^verbatim>\<open>filteredString\<close> has. The filter is handed a pointer and looks at the char there.\<close>

fun count_loop :: "(char \<Rightarrow> bool) \<Rightarrow> addr option \<Rightarrow> nat \<Rightarrow> nat \<Rightarrow> nat \<Rightarrow> nat prog" where
  "count_loop filt str 0 i filteredLength = ret filteredLength"
| "count_loop filt str (Suc k) i filteredLength =
     bnd (rd_at str i) (\<lambda>c.
       count_loop filt str k (Suc i) (if filt c then ulong (filteredLength + 1) else filteredLength))"

definition getFilteredStringLength :: "addr option \<Rightarrow> (char \<Rightarrow> bool) \<Rightarrow> nat prog" where
  "getFilteredStringLength str filt =
     bnd (object_at str) (\<lambda>bs.
     bnd (lift (getCStringLength bs)) (\<lambda>unfilteredLength.
       count_loop filt str unfilteredLength 0 0))"

fun create_loop ::
  "(char \<Rightarrow> bool) \<Rightarrow> addr option \<Rightarrow> addr option \<Rightarrow> nat \<Rightarrow> nat \<Rightarrow> nat \<Rightarrow> unit prog" where
  "create_loop filt filteredString unfilteredString 0 i j = ret ()"
| "create_loop filt filteredString unfilteredString (Suc k) i j =
     bnd (rd_at unfilteredString i) (\<lambda>c.
       if filt c
       then bnd (wr filteredString j [c]) (\<lambda>_.
              create_loop filt filteredString unfilteredString k (Suc i) (Suc j))
       else create_loop filt filteredString unfilteredString k (Suc i) j)"

definition createFilteredString ::
  "addr option \<Rightarrow> addr option \<Rightarrow> (char \<Rightarrow> bool) \<Rightarrow> unit prog" where
  "createFilteredString filteredString unfilteredString filt =
     bnd (object_at unfilteredString) (\<lambda>bs.
     bnd (lift (getCStringLength bs)) (\<lambda>unfilteredStringLength.
       create_loop filt filteredString unfilteredString unfilteredStringLength 0 0))"

definition emptyStringAlloc :: "addr \<Rightarrow> addr option prog" where
  "emptyStringAlloc p_myString =
     bnd (malloc 1) (\<lambda>c.
     bnd (set_chars p_myString c) (\<lambda>_.
       if c = None then ret None
       else bnd (wr c 0 [END_OF_C_STRING]) (\<lambda>_.
            bnd (set_length p_myString EMPTY_STRING_LENGTH) (\<lambda>_.
            chars_of p_myString))))"

subsection \<open>Lifecycle\<close>

definition myStringAlloc :: "addr option prog" where
  "myStringAlloc =
     bnd malloc_MyString (\<lambda>p_myString.
       case p_myString of
         None \<Rightarrow> ret None
       | Some a \<Rightarrow> bnd (emptyStringAlloc a) (\<lambda>c.
           if c = None then ret None else ret p_myString))"

definition myStringFree :: "addr option \<Rightarrow> unit prog" where
  "myStringFree str = (case str of
       None \<Rightarrow> ret ()
     | Some a \<Rightarrow>
         bnd (chars_of a) (\<lambda>c.
         bnd (free c) (\<lambda>_.
         bnd (set_chars a None) (\<lambda>_.
         free_MyString a))))"

text \<open>\<^verbatim>\<open>myStringLen\<close>: the stored length; for NULL, \<^verbatim>\<open>MYSTRING_ERROR\<close> as an unsigned long.\<close>

definition myStringLen :: "int \<Rightarrow> addr option \<Rightarrow> nat prog" where
  "myStringLen E str1 = (case str1 of
       None \<Rightarrow> ret (nat (E mod 2 ^ 64))
     | Some a \<Rightarrow> bnd (deref a) (\<lambda>s. ret (m_length s)))"

definition myStringSetFromMyString ::
  "int \<Rightarrow> addr option \<Rightarrow> addr option \<Rightarrow> MyStringRetVal prog" where
  "myStringSetFromMyString E str other = (case (str, other) of
       (Some a, Some b) \<Rightarrow>
         bnd (deref b) (\<lambda>ot.
           if m_length ot = EMPTY_STRING_LENGTH
           then bnd (emptyStringAlloc a) (\<lambda>c.
                  if c = None then ret MYSTRING_ERROR else ret MYSTRING_SUCCESS)
           else
             bnd (myStringLen E other) (\<lambda>otherStringLength.
             bnd (adjustMyStringLength a otherStringLength) (\<lambda>adjustLengthRetVal.
               if adjustLengthRetVal = MYSTRING_ERROR then ret MYSTRING_ERROR
               else
                 bnd (chars_of a) (\<lambda>dst.
                 bnd (chars_of b) (\<lambda>src.
                 bnd (memcpy dst 0 src otherStringLength) (\<lambda>_.
                 ret MYSTRING_SUCCESS))))))
     | _ \<Rightarrow> ret MYSTRING_ERROR)"

definition myStringClone :: "int \<Rightarrow> addr option \<Rightarrow> addr option prog" where
  "myStringClone E str = (case str of
       None \<Rightarrow> ret None
     | Some a \<Rightarrow>
         bnd myStringAlloc (\<lambda>newMyString.
         bnd (myStringSetFromMyString E newMyString str) (\<lambda>retVal.
           if retVal = MYSTRING_ERROR then ret None else ret newMyString)))"

subsection \<open>Mutators\<close>

text \<open>\<^verbatim>\<open>myStringFilter\<close>. With \<^verbatim>\<open>filteredString\<close> NULL, \<^verbatim>\<open>&filteredString -> _chars\<close> is a
  NULL dereference.\<close>

definition myStringFilter :: "addr option \<Rightarrow> (char \<Rightarrow> bool) option \<Rightarrow> MyStringRetVal prog" where
  "myStringFilter str filt = (case (str, filt) of
       (Some a, Some f) \<Rightarrow>
         bnd (deref a) (\<lambda>s.
           if m_length s = EMPTY_STRING_LENGTH then ret MYSTRING_SUCCESS
           else
             bnd (getFilteredStringLength (m_chars s) f) (\<lambda>filteredStringLength.
             bnd myStringAlloc (\<lambda>filteredString.
               case filteredString of
                 None \<Rightarrow> ub NullPointer
               | Some fs \<Rightarrow>
                   bnd (adjustMyStringLength fs filteredStringLength) (\<lambda>adjustLengthRetVal.
                     if adjustLengthRetVal = MYSTRING_ERROR then ret MYSTRING_ERROR
                     else
                       bnd (chars_of fs) (\<lambda>dst.
                       bnd (chars_of a) (\<lambda>src.
                       bnd (createFilteredString dst src f) (\<lambda>_.
                       bnd (chars_of fs) (\<lambda>c.
                       bnd (set_chars a c) (\<lambda>_.
                       bnd (deref fs) (\<lambda>t.
                       bnd (set_length a (m_length t)) (\<lambda>_.
                       bnd (myStringFree filteredString) (\<lambda>_.
                       ret MYSTRING_SUCCESS))))))))))))
     | _ \<Rightarrow> ret MYSTRING_ERROR)"

text \<open>\<^verbatim>\<open>myStringSetFromCString\<close>. \<open>cString\<close> is NULL or the chars from the pointer to the
  end of the caller's object.\<close>

definition myStringSetFromCString :: "addr option \<Rightarrow> string option \<Rightarrow> MyStringRetVal prog" where
  "myStringSetFromCString str cString = (case (str, cString) of
       (Some a, Some cs) \<Rightarrow>
         bnd (lift (getCStringLength cs)) (\<lambda>cStringLength.
         bnd (lift (char_at cs cStringLength)) (\<lambda>c.
           if c \<noteq> END_OF_C_STRING then ret MYSTRING_ERROR
           else
             bnd (if cStringLength = 0 then emptyStringAlloc a else ret (Some a)) (\<lambda>e.
               if e = None then ret MYSTRING_ERROR
               else
                 bnd (adjustMyStringLength a cStringLength) (\<lambda>adjustLengthRetVal.
                   if adjustLengthRetVal = MYSTRING_ERROR then ret MYSTRING_ERROR
                   else
                     bnd (chars_of a) (\<lambda>dst.
                     bnd (wr dst 0 (take cStringLength cs)) (\<lambda>_.
                     ret MYSTRING_SUCCESS))))))
     | _ \<Rightarrow> ret MYSTRING_ERROR)"

text \<open>\<^verbatim>\<open>sprintf(buf, "%d", n)\<close> writes the decimal text of n and a terminating \<^verbatim>\<open>'\0'\<close>, and
  returns the number of chars before the terminator.\<close>

fun dec_nat :: "nat \<Rightarrow> string" where
  "dec_nat n =
     (if n < 10 then [char_of (48 + n)] else dec_nat (n div 10) @ [char_of (48 + n mod 10)])"

declare dec_nat.simps [simp del]

definition dec_int :: "int \<Rightarrow> string" where
  "dec_int n = (if n < 0 then CHR ''-'' # dec_nat (nat (- n)) else dec_nat (nat n))"

definition sprintf_d :: "addr option \<Rightarrow> int \<Rightarrow> int prog" where
  "sprintf_d buf n =
     bnd (wr buf 0 (dec_int n @ [CHR 0x00])) (\<lambda>_. ret (int (length (dec_int n))))"

definition myStringSetFromInt :: "addr option \<Rightarrow> int \<Rightarrow> MyStringRetVal prog" where
  "myStringSetFromInt str n = (case str of
       None \<Rightarrow> ret MYSTRING_ERROR
     | Some a \<Rightarrow>
         (let numOfDigits = ulong (nat (getNumOfDigits n)) in
          bnd (adjustMyStringLength a numOfDigits) (\<lambda>adjustLengthRetVal.
            if adjustLengthRetVal = MYSTRING_ERROR then ret MYSTRING_ERROR
            else
              bnd (chars_of a) (\<lambda>c.
              bnd (sprintf_d c n) (\<lambda>setIndicator.
                if setIndicator < 0 then ret MYSTRING_ERROR else ret MYSTRING_SUCCESS)))))"

text \<open>
  \<^verbatim>\<open>sscanf(s, "%d", &value)\<close> on the text of a C string: white space is skipped, then an
  optional sign and a run of decimal digits are converted. The result is \<open>-1\<close> (EOF)
  when the text ends before anything is converted, \<open>0\<close> when no digit is found, and \<open>1\<close>
  with the value otherwise; a value that does not fit an int is undefined behaviour.
\<close>

definition isspace :: "char \<Rightarrow> bool" where
  "isspace c = (c \<in> set [CHR '' '', CHR 0x09, CHR 0x0A, CHR 0x0B, CHR 0x0C, CHR 0x0D])"

definition isdigit :: "char \<Rightarrow> bool" where
  "isdigit c = (48 \<le> (of_char c :: nat) \<and> (of_char c :: nat) \<le> 57)"

fun digits_value :: "nat \<Rightarrow> string \<Rightarrow> nat" where
  "digits_value acc [] = acc"
| "digits_value acc (c # cs) = digits_value (10 * acc + (of_char c - 48)) cs"

definition sscanf_d :: "string \<Rightarrow> fault + int \<times> int option" where
  "sscanf_d s =
     (let t = dropWhile isspace s in
      if t = [] then Inr (- 1, None)
      else
        let negative = (hd t = CHR ''-'');
            u = (if hd t = CHR ''-'' \<or> hd t = CHR ''+'' then tl t else t);
            ds = takeWhile isdigit u
        in if ds = [] then Inr (0, None)
           else
             let v = (if negative then - int (digits_value 0 ds) else int (digits_value 0 ds))
             in if - (2 ^ 31) \<le> v \<and> v < 2 ^ 31 then Inr (1, Some v) else Inl Unrepresentable)"

text \<open>\<^verbatim>\<open>myStringToInt\<close>. The buffer is handed to sscanf as a C string. (The function also
  prints the count sscanf returned on the standard output, which the model leaves out.)\<close>

definition myStringToInt :: "int \<Rightarrow> addr option \<Rightarrow> int prog" where
  "myStringToInt E str = (case str of
       None \<Rightarrow> ret E
     | Some a \<Rightarrow>
         bnd (chars_of a) (\<lambda>c.
         bnd (object_at c) (\<lambda>bs.
         bnd (lift (getCStringLength bs)) (\<lambda>n.
         bnd (lift (sscanf_d (take n bs))) (\<lambda>(numberOfDigits, value).
           if numberOfDigits \<le> 0 then ret MYSTR_ERROR_CODE
           else ret (case value of None \<Rightarrow> 0 | Some v \<Rightarrow> v))))))"

definition myStringToCString :: "int \<Rightarrow> addr option \<Rightarrow> addr option prog" where
  "myStringToCString E str = (case str of
       None \<Rightarrow> ret None
     | Some a \<Rightarrow>
         bnd (myStringLen E str) (\<lambda>oldLength.
         bnd (malloc (ulong (oldLength + 1))) (\<lambda>newString.
           if newString = None then ret None
           else
             bnd (chars_of a) (\<lambda>src.
             bnd (memcpy newString 0 src oldLength) (\<lambda>_.
             bnd (wr newString oldLength [END_OF_C_STRING]) (\<lambda>_.
             ret newString))))))"

definition myStringCat :: "int \<Rightarrow> addr option \<Rightarrow> addr option \<Rightarrow> MyStringRetVal prog" where
  "myStringCat E dest src = (case (dest, src) of
       (Some d, Some s) \<Rightarrow>
         bnd (deref s) (\<lambda>ot.
           if m_length ot = EMPTY_STRING_LENGTH then ret MYSTRING_SUCCESS
           else
             bnd (myStringLen E src) (\<lambda>srcLength.
             bnd (myStringLen E dest) (\<lambda>destLength.
             bnd (adjustMyStringLength d (ulong (srcLength + destLength))) (\<lambda>adjustLengthRetVal.
               if adjustLengthRetVal = MYSTRING_ERROR then ret MYSTRING_ERROR
               else
                 bnd (chars_of d) (\<lambda>dc.
                 bnd (chars_of s) (\<lambda>sc.
                 bnd (memcpy dc destLength sc srcLength) (\<lambda>_.
                 ret MYSTRING_SUCCESS)))))))
     | _ \<Rightarrow> ret MYSTRING_ERROR)"

definition myStringCatTo ::
  "int \<Rightarrow> addr option \<Rightarrow> addr option \<Rightarrow> addr option \<Rightarrow> MyStringRetVal prog" where
  "myStringCatTo E str1 str2 result = (case (str1, str2, result) of
       (Some a, Some b, Some r) \<Rightarrow>
         bnd (deref a) (\<lambda>s1.
         bnd (deref b) (\<lambda>s2.
           if m_length s1 = EMPTY_STRING_LENGTH \<and> m_length s2 = EMPTY_STRING_LENGTH
           then bnd (emptyStringAlloc r) (\<lambda>c.
                  if c \<noteq> None then ret MYSTRING_SUCCESS else ret MYSTRING_ERROR)
           else
             bnd (myStringLen E str1) (\<lambda>strLength1.
             bnd (myStringLen E str2) (\<lambda>strLength2.
             bnd (adjustMyStringLength r (ulong (strLength1 + strLength2))) (\<lambda>adjustLengthRetVal.
               if adjustLengthRetVal = MYSTRING_ERROR then ret MYSTRING_ERROR
               else
                 bnd (chars_of r) (\<lambda>rc.
                 bnd (chars_of a) (\<lambda>c1.
                 bnd (memcpy rc 0 c1 strLength1) (\<lambda>_.
                 bnd (chars_of r) (\<lambda>rc'.
                 bnd (chars_of b) (\<lambda>c2.
                 bnd (memcpy rc' strLength1 c2 strLength2) (\<lambda>_.
                 ret MYSTRING_SUCCESS)))))))))))
     | _ \<Rightarrow> ret MYSTRING_ERROR)"

subsection \<open>Comparison\<close>

definition myStringCompare :: "int \<Rightarrow> addr option \<Rightarrow> addr option \<Rightarrow> int prog" where
  "myStringCompare E str1 str2 = (case (str1, str2) of
       (Some a, Some b) \<Rightarrow>
         bnd (myStringLen E str1) (\<lambda>strLength1.
         bnd (myStringLen E str2) (\<lambda>strLength2.
         bnd (chars_of a) (\<lambda>c1.
         bnd (chars_of b) (\<lambda>c2.
           if strLength1 > strLength2
           then bnd (memcmp c1 c2 strLength2) (\<lambda>equalUntilLength2.
                  ret (if equalUntilLength2 \<ge> EQUAL_STRINGS then STR1_BIGGER else STR2_BIGGER))
           else if strLength1 < strLength2
           then bnd (memcmp c1 c2 strLength1) (\<lambda>equalUntilLength1.
                  ret (if equalUntilLength1 \<le> EQUAL_STRINGS then STR2_BIGGER else STR1_BIGGER))
           else memcmp c1 c2 strLength1))))
     | _ \<Rightarrow> ret MYSTR_ERROR_CODE)"

text \<open>\<^verbatim>\<open>myStringCustomCompare\<close>. A comparator is a C function of two \<^verbatim>\<open>MyString *\<close>: it may
  read the store, change it, or fault. The loop returns \<open>None\<close> when it runs to its end.\<close>

type_synonym comparator = "addr option \<Rightarrow> addr option \<Rightarrow> int prog"

function custom_loop ::
  "comparator \<Rightarrow> addr option \<Rightarrow> addr option \<Rightarrow> nat \<Rightarrow> nat \<Rightarrow> nat \<Rightarrow> int option prog" where
  "custom_loop comparator str1 str2 strLength1 strLength2 i =
     (if i < strLength1 \<and> i < strLength2
      then bnd (comparator str1 str2) (\<lambda>v.
             if v > EQUAL_STRINGS then ret (Some STR1_BIGGER)
             else bnd (comparator str1 str2) (\<lambda>w.
               if w < EQUAL_STRINGS then ret (Some STR2_BIGGER)
               else custom_loop comparator str1 str2 strLength1 strLength2 (Suc i)))
      else ret None)"
  by pat_completeness auto
termination
  by (relation "measure (\<lambda>(c, s1, s2, l1, l2, i). l1 - i)") auto

declare custom_loop.simps [simp del]

definition myStringCustomCompare ::
  "int \<Rightarrow> addr option \<Rightarrow> addr option \<Rightarrow> comparator option \<Rightarrow> int prog" where
  "myStringCustomCompare E str1 str2 comparator = (case (str1, str2, comparator) of
       (Some a, Some b, Some cmp) \<Rightarrow>
         bnd (myStringLen E str1) (\<lambda>strLength1.
         bnd (myStringLen E str2) (\<lambda>strLength2.
         bnd (custom_loop cmp str1 str2 strLength1 strLength2 0) (\<lambda>r.
           case r of
             Some v \<Rightarrow> ret v
           | None \<Rightarrow>
               if strLength1 > strLength2 then ret STR1_BIGGER
               else if strLength1 < strLength2 then ret STR2_BIGGER
               else ret EQUAL_STRINGS)))
     | _ \<Rightarrow> ret MYSTR_ERROR_CODE)"

definition myStringEqual :: "int \<Rightarrow> addr option \<Rightarrow> addr option \<Rightarrow> int prog" where
  "myStringEqual E str1 str2 = (case (str1, str2) of
       (Some a, Some b) \<Rightarrow>
         bnd (myStringCompare E str1 str2) (\<lambda>areEqual.
           ret (if areEqual = EQUAL_STRINGS then C_TRUE else C_FALSE))
     | _ \<Rightarrow> ret MYSTR_ERROR_CODE)"

subsection \<open>Output\<close>

text \<open>\<^verbatim>\<open>fprintf(stream, "%s", s)\<close> appends the C string at s to the stream and returns the
  number of chars written, or a negative value when the output fails.
  \<^verbatim>\<open>fclose(stream)\<close> ends the stream; using it afterwards is undefined.\<close>

definition fprintf_s :: "addr \<Rightarrow> addr option \<Rightarrow> int prog" where
  "fprintf_s stream s =
     bnd (object_at s) (\<lambda>bs.
     bnd (lift (getCStringLength bs)) (\<lambda>n h.
       case files h stream of
         None \<Rightarrow> Inl Dangling
       | Some f \<Rightarrow>
           if closed f then Inl Dangling
           else if refusing f then Inr (- 1, h)
           else Inr (int n,
                     h\<lparr>files := (files h)(stream \<mapsto> f\<lparr>written := written f @ take n bs\<rparr>)\<rparr>)))"

definition fclose :: "addr \<Rightarrow> int prog" where
  "fclose stream = (\<lambda>h. case files h stream of
       None \<Rightarrow> Inl Dangling
     | Some f \<Rightarrow>
         if closed f then Inl Dangling
         else Inr (0, h\<lparr>files := (files h)(stream \<mapsto> f\<lparr>closed := True\<rparr>)\<rparr>))"

definition myStringWrite :: "int \<Rightarrow> addr option \<Rightarrow> addr option \<Rightarrow> MyStringRetVal prog" where
  "myStringWrite E str stream = (case (stream, str) of
       (Some f, Some a) \<Rightarrow>
         bnd (myStringToCString E str) (\<lambda>cStr.
         bnd (fprintf_s f cStr) (\<lambda>writingIndicator.
           if writingIndicator < 0 then ret MYSTRING_ERROR
           else
             bnd (free cStr) (\<lambda>_.
             bnd (fclose f) (\<lambda>_.
             ret MYSTRING_SUCCESS))))
     | _ \<Rightarrow> ret MYSTRING_ERROR)"

section \<open>Instances\<close>

text \<open>What a run returns, without the store it ends in.\<close>

definition outcome :: "fault + 'a \<times> heap \<Rightarrow> fault + 'a" where
  "outcome r = (case r of Inl e \<Rightarrow> Inl e | Inr (x, h) \<Rightarrow> Inr x)"

text \<open>The chars an instance holds: its struct is live, its buffer is a live block, and
  the first \<^verbatim>\<open>_length\<close> chars of the block are the content.\<close>

definition content :: "heap \<Rightarrow> addr \<Rightarrow> string option" where
  "content h a = (case structs h a of
       None \<Rightarrow> None
     | Some s \<Rightarrow> (case m_chars s of
           None \<Rightarrow> None
         | Some c \<Rightarrow> (case blocks h c of
               None \<Rightarrow> None
             | Some bs \<Rightarrow> if m_length s \<le> length bs then Some (take (m_length s) bs) else None)))"

text \<open>The allocator's invariant: every live address is below the next one it hands out.\<close>

definition wf_heap :: "heap \<Rightarrow> bool" where
  "wf_heap h = (dom (structs h) \<union> dom (blocks h) \<subseteq> {..<brk h})"

text \<open>The three-way order of the spec: the first pair of chars that differs within
  the overlapping prefix decides; without one, the longer string is the bigger.\<close>

definition compare_spec :: "string \<Rightarrow> string \<Rightarrow> int" where
  "compare_spec xs ys = (case find (\<lambda>(x, y). x \<noteq> y) (zip xs ys) of
       Some (x, y) \<Rightarrow> sgn (int (of_char x) - int (of_char y))
     | None \<Rightarrow> if length xs > length ys then 1 else if length xs < length ys then - 1 else 0)"

text \<open>The tie-break on lengths that ends myStringCompare and myStringCustomCompare.\<close>

definition length_tiebreak :: "string \<Rightarrow> string \<Rightarrow> int" where
  "length_tiebreak xs ys =
     (if length xs > length ys then 1 else if length xs < length ys then - 1 else 0)"

text \<open>\<^verbatim>\<open>reverseMyStringCompare\<close>, the comparator of the unit tests in MyString.c.\<close>

definition reverseMyStringCompare :: "int \<Rightarrow> comparator" where
  "reverseMyStringCompare E str1 str2 = (case (str1, str2) of
       (Some a, Some b) \<Rightarrow>
         bnd (myStringCompare E str1 str2) (\<lambda>result.
           if result = STR1_BIGGER then ret STR2_BIGGER
           else if result = STR2_BIGGER then ret STR1_BIGGER
           else ret EQUAL_STRINGS)
     | _ \<Rightarrow> ret MYSTR_ERROR_CODE)"

text \<open>Custom compare as the spec words it: with either string empty the length
  tie-break, and otherwise decided by the sign of the first application of the
  comparator to the pair, with the tie-break when that is zero.\<close>

definition customCompare_spec :: "comparator \<Rightarrow> addr \<Rightarrow> addr \<Rightarrow> string \<Rightarrow> string \<Rightarrow> int prog" where
  "customCompare_spec c a b xs ys =
     (if xs = [] \<or> ys = [] then ret (length_tiebreak xs ys)
      else bnd (c (Some a) (Some b)) (\<lambda>v.
             ret (if v > 0 then 1 else if v < 0 then - 1 else length_tiebreak xs ys)))"

text \<open>Custom compare as a reference definition on the two contents. For each index
  below the shorter length, in turn: the comparator is applied to the pair, and a
  positive value ends the comparison with \<open>1\<close>; otherwise it is applied to the pair once
  more, and a negative value ends the comparison with \<open>-1\<close>. When no index has ended it,
  the result is the length tie-break. \<open>reference_loop c p q k\<close> goes through \<open>k\<close>
  indices.\<close>

fun reference_loop :: "comparator \<Rightarrow> addr option \<Rightarrow> addr option \<Rightarrow> nat \<Rightarrow> int option prog" where
  "reference_loop c p q 0 = ret None"
| "reference_loop c p q (Suc k) =
     bnd (c p q) (\<lambda>v.
       if v > 0 then ret (Some 1)
       else bnd (c p q) (\<lambda>w.
         if w < 0 then ret (Some (- 1))
         else reference_loop c p q k))"

definition customCompare_reference ::
  "comparator \<Rightarrow> addr \<Rightarrow> addr \<Rightarrow> string \<Rightarrow> string \<Rightarrow> int prog" where
  "customCompare_reference c a b xs ys =
     bnd (reference_loop c (Some a) (Some b) (min (length xs) (length ys))) (\<lambda>r.
       ret (case r of Some v \<Rightarrow> v | None \<Rightarrow> length_tiebreak xs ys))"

text \<open>A comparator with a state: it counts its calls in an unsigned long of its own,
  which the store holds as the length field of a struct at \<open>k\<close>, and its n-th call
  returns the n-th value of \<open>vs\<close> (zero when \<open>vs\<close> has run out), whatever the two
  instances are.\<close>

definition counting_comparator :: "addr \<Rightarrow> int list \<Rightarrow> comparator" where
  "counting_comparator k vs str1 str2 =
     bnd (deref k) (\<lambda>calls.
     bnd (set_length k (ulong (m_length calls + 1))) (\<lambda>_.
       ret (if m_length calls < length vs then vs ! m_length calls else 0)))"

text \<open>\<^verbatim>\<open>filt\<close>, the filter of the unit tests in MyString.c:
  \<^verbatim>\<open>*c < 'g' && 'a' < *c\<close>.\<close>

definition filt_test :: "char \<Rightarrow> bool" where
  "filt_test c = ((of_char c :: nat) < of_char CHR ''g'' \<and> (of_char CHR ''a'' :: nat) < of_char c)"

text \<open>The operations that change an instance, as calls on one instance \<open>p\<close>, and a
  caller that makes a list of such calls one after the other, whatever each returns.\<close>

datatype mutation =
    SetFromCString "string option"
  | SetFromInt int
  | SetFromMyString "addr option"
  | Filter "(char \<Rightarrow> bool) option"
  | Cat "addr option"
  | CatTo "addr option" "addr option"

fun mutate :: "int \<Rightarrow> addr \<Rightarrow> mutation \<Rightarrow> MyStringRetVal prog" where
  "mutate E p (SetFromCString cString) = myStringSetFromCString (Some p) cString"
| "mutate E p (SetFromInt n) = myStringSetFromInt (Some p) n"
| "mutate E p (SetFromMyString other) = myStringSetFromMyString E (Some p) other"
| "mutate E p (Filter f) = myStringFilter (Some p) f"
| "mutate E p (Cat src) = myStringCat E (Some p) src"
| "mutate E p (CatTo str1 str2) = myStringCatTo E str1 str2 (Some p)"

fun mutations :: "int \<Rightarrow> addr \<Rightarrow> mutation list \<Rightarrow> unit prog" where
  "mutations E p [] = ret ()"
| "mutations E p (m # ms) = bnd (mutate E p m) (\<lambda>_. mutations E p ms)"

text \<open>
  What a run that returns establishes: \<open>triple P m Q\<close> says that from a store with \<open>P\<close>
  every returning run of \<open>m\<close> ends in a result and a store with \<open>Q\<close>.

  \<open>guarded G\<close> is the invariant behind the independence of a clone. \<open>G\<close> names an
  instance, its struct, its buffer and the buffer's chars, the clone, and an address
  above the instance and its buffer. The invariant says that the instance's struct and
  buffer are as \<open>G\<close> has them, and that no struct the calls on the clone work on (the
  clone itself and every struct allocated later) points to the instance's buffer.
\<close>

definition triple :: "(heap \<Rightarrow> bool) \<Rightarrow> 'a prog \<Rightarrow> ('a \<Rightarrow> heap \<Rightarrow> bool) \<Rightarrow> bool" where
  "triple P m Q = (\<forall>h r h'. P h \<longrightarrow> m h = Inr (r, h') \<longrightarrow> Q r h')"

record guard =
  g_inst :: addr
  g_struct :: MyString
  g_block :: addr
  g_chars :: string
  g_clone :: addr
  g_base :: addr

definition owned :: "guard \<Rightarrow> addr \<Rightarrow> bool" where
  "owned G x = (x = g_clone G \<or> g_base G \<le> x)"

definition guarded :: "guard \<Rightarrow> heap \<Rightarrow> bool" where
  "guarded G h =
     (g_inst G < g_base G \<and> g_block G < g_base G \<and> g_clone G \<noteq> g_inst G
      \<and> g_base G \<le> brk h
      \<and> structs h (g_inst G) = Some (g_struct G)
      \<and> blocks h (g_block G) = Some (g_chars G)
      \<and> (\<forall>x s. owned G x \<longrightarrow> structs h x = Some s \<longrightarrow> m_chars s \<noteq> Some (g_block G)))"

text \<open>A store with nothing allocated, and one with three instances, holding \<open>abc\<close>,
  \<open>abcd\<close> and the empty string, and an open stream.\<close>

definition empty_heap :: heap where
  "empty_heap = \<lparr>structs = Map.empty, blocks = Map.empty, files = Map.empty,
     brk = 0, grants = [], junk = CHR ''?''\<rparr>"

definition sample_heap :: heap where
  "sample_heap = \<lparr>
     structs = [0 \<mapsto> \<lparr>m_chars = Some 1, m_length = 3\<rparr>,
                2 \<mapsto> \<lparr>m_chars = Some 3, m_length = 4\<rparr>,
                4 \<mapsto> \<lparr>m_chars = Some 5, m_length = 0\<rparr>],
     blocks = [1 \<mapsto> ''abc'', 3 \<mapsto> ''abcd'', 5 \<mapsto> [CHR 0x00]],
     files = [6 \<mapsto> \<lparr>written = [], closed = False, refusing = False\<rparr>],
     brk = 7, grants = [], junk = CHR ''?''\<rparr>"

text \<open>The store with three instances, and the struct in which a counting comparator
  keeps its count, at zero.\<close>

definition counter_heap :: heap where
  "counter_heap = sample_heap\<lparr>
     structs := (structs sample_heap)(7 \<mapsto> \<lparr>m_chars = None, m_length = 0\<rparr>), brk := 8\<rparr>"

text \<open>A store in which the block of the instance is larger than its content, with a
  \<^verbatim>\<open>'\0'\<close> after the content \<open>abcz\<close>.\<close>

definition slack_heap :: heap where
  "slack_heap = \<lparr>
     structs = [0 \<mapsto> \<lparr>m_chars = Some 1, m_length = 4\<rparr>],
     blocks = [1 \<mapsto> ''abcz'' @ [CHR 0x00]],
     files = Map.empty, brk = 2, grants = [], junk = CHR ''?''\<rparr>"

section \<open>Properties\<close>

subsection \<open>Runs that return\<close>

lemma bnd_Inr: "bnd m f h = Inr r \<longleftrightarrow> (\<exists>x h'. m h = Inr (x, h') \<and> f x h' = Inr r)"
  by (auto simp: bnd_def split: sum.splits)

lemma ret_Inr: "ret x h = Inr r \<longleftrightarrow> r = (x, h)"
  by (auto simp: ret_def)

lemma ub_Inr: "ub e h = Inr r \<longleftrightarrow> False"
  by (simp add: ub_def)

lemma lift_Inr: "lift v h = Inr r \<longleftrightarrow> (\<exists>x. v = Inr x \<and> r = (x, h))"
  by (auto simp: lift_def split: sum.splits)

lemmas prog_Inr = bnd_Inr ret_Inr ub_Inr lift_Inr

lemma granted_Inr:
  "granted h = Inr (ok, h') \<longleftrightarrow>
     (grants h = [] \<and> ok \<and> h' = h) \<or> (\<exists>bs. grants h = ok # bs \<and> h' = h\<lparr>grants := bs\<rparr>)"
  by (auto simp: granted_def split: list.splits)

lemma deref_Inr: "deref a h = Inr (s, h') \<longleftrightarrow> structs h a = Some s \<and> h' = h"
  by (auto simp: deref_def split: option.splits)

lemma chars_of_Inr:
  "chars_of a h = Inr (c, h') \<longleftrightarrow> (\<exists>s. structs h a = Some s \<and> c = m_chars s \<and> h' = h)"
  by (auto simp: chars_of_def prog_Inr deref_Inr)

lemma set_chars_Inr:
  "set_chars a c h = Inr (u, h') \<longleftrightarrow>
     (\<exists>s. structs h a = Some s \<and> h' = h\<lparr>structs := (structs h)(a \<mapsto> s\<lparr>m_chars := c\<rparr>)\<rparr>)"
  by (auto simp: set_chars_def split: option.splits)

lemma set_length_Inr:
  "set_length a n h = Inr (u, h') \<longleftrightarrow>
     (\<exists>s. structs h a = Some s \<and> h' = h\<lparr>structs := (structs h)(a \<mapsto> s\<lparr>m_length := n\<rparr>)\<rparr>)"
  by (auto simp: set_length_def split: option.splits)

lemma wr_Inr:
  "wr p off cs h = Inr (u, h') \<longleftrightarrow>
     (\<exists>a bs. p = Some a \<and> blocks h a = Some bs \<and> off + length cs \<le> length bs \<and>
        h' = h\<lparr>blocks := (blocks h)(a \<mapsto> take off bs @ cs @ drop (off + length cs) bs)\<rparr>)"
  by (auto simp: wr_def ub_def split: option.splits)

lemma rd_Inr:
  "rd p n h = Inr (cs, h') \<longleftrightarrow>
     (\<exists>a bs. p = Some a \<and> blocks h a = Some bs \<and> n \<le> length bs \<and> cs = take n bs \<and> h' = h)"
  by (auto simp: rd_def ub_def split: option.splits)





subsection \<open>Runs in which every allocation is granted\<close>

lemma granted_ok:
  "False \<notin> set (grants h) \<Longrightarrow> granted h = Inr (True, h\<lparr>grants := tl (grants h)\<rparr>)"
  by (cases "grants h") (auto simp: granted_def)

lemma tl_grants_ok: "False \<notin> set xs \<Longrightarrow> False \<notin> set (tl xs)"
  by (cases xs) auto

lemma granted_eq:
  "granted h = Inr (grants h = [] \<or> hd (grants h), h\<lparr>grants := tl (grants h)\<rparr>)"
  by (cases "grants h") (auto simp: granted_def)

lemma length_resized [simp]: "length (resized n bs j) = n"
  by (simp add: resized_def)

lemma take_resized: "k \<le> length bs \<Longrightarrow> k \<le> n \<Longrightarrow> take k (resized n bs j) = take k bs"
  by (simp add: resized_def)

lemma adjustMyStringLength_zero:
  assumes "structs h a = Some st" and "m_chars st = Some c" and "blocks h c = Some bs"
  shows "adjustMyStringLength a 0 h =
     Inr (MYSTRING_ERROR,
       h\<lparr>blocks := (blocks h)(c := None),
         structs := (structs h)(a \<mapsto> st\<lparr>m_chars := None\<rparr>)\<rparr>)"
  using assms
  by (simp add: adjustMyStringLength_def realloc_def chars_of_def deref_def set_chars_def
      bnd_def ret_def)

lemma adjustMyStringLength_run:
  assumes "structs h a = Some st" and "m_chars st = Some c" and "blocks h c = Some bs"
    and "0 < n"
  shows "adjustMyStringLength a n h =
     (if grants h = [] \<or> hd (grants h)
      then Inr (MYSTRING_SUCCESS,
        h\<lparr>grants := tl (grants h),
          blocks := ((blocks h)(c := None))(brk h \<mapsto> resized n bs (junk h)),
          brk := Suc (brk h),
          structs := (structs h)(a \<mapsto> st\<lparr>m_chars := Some (brk h), m_length := n\<rparr>)\<rparr>)
      else Inr (MYSTRING_ERROR,
        h\<lparr>grants := tl (grants h), structs := (structs h)(a \<mapsto> st\<lparr>m_chars := None\<rparr>)\<rparr>))"
  using assms
  by (simp add: adjustMyStringLength_def realloc_def chars_of_def deref_def set_chars_def
      set_length_def granted_eq bnd_def ret_def)

lemma wf_heap_sample: "wf_heap sample_heap"
  by (auto simp: wf_heap_def sample_heap_def split: if_splits)

lemma content_sample:
  "content sample_heap 0 = Some ''abc''"
  "content sample_heap 2 = Some ''abcd''"
  "content sample_heap 4 = Some []"
  by (simp_all add: content_def sample_heap_def)

lemma wf_heap_structs: "wf_heap h \<Longrightarrow> structs h a = Some s \<Longrightarrow> a < brk h"
  by (auto simp: wf_heap_def)

lemma wf_heap_blocks: "wf_heap h \<Longrightarrow> blocks h a = Some s \<Longrightarrow> a < brk h"
  by (auto simp: wf_heap_def)

lemma content_SomeD:
  "content h a = Some xs \<Longrightarrow>
     \<exists>s c bs. structs h a = Some s \<and> m_chars s = Some c \<and> blocks h c = Some bs \<and>
       m_length s \<le> length bs \<and> xs = take (m_length s) bs"
  by (auto simp: content_def split: option.splits if_splits)

lemma getCStringLength_append:
  "END_OF_C_STRING \<notin> set s \<Longrightarrow> getCStringLength (s @ END_OF_C_STRING # rest) = Inr (length s)"
  by (induction s) auto

lemma char_at_append: "char_at (s @ c # rest) (length s) = Inr c"
  by (simp add: char_at_def)


lemma myStringAlloc_ok:
  assumes "False \<notin> set (grants h)" "wf_heap h"
  shows "\<exists>h1. myStringAlloc h = Inr (Some (brk h), h1) \<and> content h1 (brk h) = Some []
           \<and> False \<notin> set (grants h1) \<and> wf_heap h1"
  using assms
  by (auto simp add: myStringAlloc_def malloc_MyString_def emptyStringAlloc_def malloc_def
      set_chars_def set_length_def wr_def chars_of_def deref_def tl_grants_ok
      bnd_def ret_def granted_ok content_def EMPTY_STRING_LENGTH_def wf_heap_def)

lemma emptyStringAlloc_ok:
  assumes "False \<notin> set (grants h)" and "structs h a = Some st" and "wf_heap h"
  shows "\<exists>h1 c. emptyStringAlloc a h = Inr (Some c, h1) \<and> content h1 a = Some []
           \<and> False \<notin> set (grants h1) \<and> wf_heap h1"
  using assms
  by (auto simp add: emptyStringAlloc_def malloc_def
      set_chars_def set_length_def wr_def chars_of_def deref_def tl_grants_ok
      bnd_def ret_def granted_ok content_def EMPTY_STRING_LENGTH_def wf_heap_def)

lemma myStringSetFromCString_ok:
  assumes "False \<notin> set (grants h)" and "content h a = Some xs" and "wf_heap h"
    and "END_OF_C_STRING \<notin> set s" and "s \<noteq> []"
  shows "\<exists>h2. myStringSetFromCString (Some a) (Some (s @ END_OF_C_STRING # rest)) h
             = Inr (MYSTRING_SUCCESS, h2)
           \<and> content h2 a = Some s \<and> False \<notin> set (grants h2) \<and> wf_heap h2"
proof -
  from assms(2) obtain st c bs where a: "structs h a = Some st" "m_chars st = Some c"
    "blocks h c = Some bs" "m_length st \<le> length bs" "xs = take (m_length st) bs"
    by (blast dest: content_SomeD)
  have f: "c \<noteq> brk h" "a \<noteq> brk h"
    using wf_heap_blocks [OF assms(3) a(3)] wf_heap_structs [OF assms(3) a(1)] by auto
  show ?thesis
    using a assms(1,3,4,5) f
    by (auto simp add: myStringSetFromCString_def adjustMyStringLength_def realloc_def
        resized_def
        set_chars_def set_length_def wr_def chars_of_def deref_def lift_def
        getCStringLength_append char_at_append tl_grants_ok
        bnd_def ret_def granted_ok content_def wf_heap_def)
qed

lemma myStringToCString_ok:
  assumes "False \<notin> set (grants h)" and "content h a = Some s" and "wf_heap h"
    and "length s + 1 < 2 ^ 64"
  shows "\<exists>q h3. myStringToCString E (Some a) h = Inr (Some q, h3)
           \<and> blocks h3 q = Some (s @ [END_OF_C_STRING]) \<and> content h3 a = Some s
           \<and> False \<notin> set (grants h3) \<and> wf_heap h3"
proof -
  from assms(2) obtain st c bs where a: "structs h a = Some st" "m_chars st = Some c"
    "blocks h c = Some bs" "m_length st \<le> length bs" "s = take (m_length st) bs"
    by (blast dest: content_SomeD)
  have l: "length s = m_length st" using a by simp
  have u: "ulong (Suc (m_length st)) = Suc (m_length st)"
    using assms(4) l by (simp add: ulong_def)
  have f: "c \<noteq> brk h" "a \<noteq> brk h"
    using wf_heap_blocks [OF assms(3) a(3)] wf_heap_structs [OF assms(3) a(1)] by auto
  show ?thesis
    using a assms(1,3) u f
    by (auto simp add: myStringToCString_def myStringLen_def malloc_def memcpy_def rd_def
        wr_def chars_of_def deref_def tl_grants_ok
        bnd_def ret_def granted_ok content_def wf_heap_def)
qed

subsection \<open>Three-way compare\<close>

lemma memcmp_chars_find:
  "memcmp_chars xs ys = (case find (\<lambda>(x, y). x \<noteq> y) (zip xs ys) of
       Some (x, y) \<Rightarrow> int (of_char x) - int (of_char y) | None \<Rightarrow> 0)"
  by (induction xs ys rule: memcmp_chars.induct) auto

lemma find_differs: "find (\<lambda>(x, y). x \<noteq> y) zs = Some (x, y) \<Longrightarrow> x \<noteq> y"
  by (induction zs) (auto split: if_splits)

lemma zip_take_left: "length ys \<le> n \<Longrightarrow> zip (take n xs) ys = zip xs ys"
  by (induction xs ys arbitrary: n rule: list_induct2') (auto simp: take_Cons split: nat.splits)

lemma zip_take_right: "length xs \<le> n \<Longrightarrow> zip xs (take n ys) = zip xs ys"
  by (induction xs ys arbitrary: n rule: list_induct2') (auto simp: take_Cons split: nat.splits)

text \<open>
  C1. For two instances holding \<open>xs\<close> and \<open>ys\<close>, myStringCompare returns, without
  changing the store, a value whose sign is the three-way order of the spec: the sign
  of the difference of the first pair of chars that differs within the overlapping
  prefix; with equal prefixes, positive when the first string is longer and negative
  when the second is; zero when both prefixes and lengths are equal. With a NULL
  argument it returns \<^verbatim>\<open>MYSTR_ERROR_CODE\<close>.
\<close>

theorem myStringCompare_lexicographic:
  assumes "content h a = Some xs" and "content h b = Some ys"
  shows "(\<exists>r. myStringCompare E (Some a) (Some b) h = Inr (r, h) \<and> sgn r = compare_spec xs ys)
    \<and> myStringCompare E None q h = Inr (MYSTR_ERROR_CODE, h)
    \<and> myStringCompare E p None h = Inr (MYSTR_ERROR_CODE, h)"
proof -
  from assms(1) obtain s1 c1 bs1 where a: "structs h a = Some s1" "m_chars s1 = Some c1"
    "blocks h c1 = Some bs1" "m_length s1 \<le> length bs1" "xs = take (m_length s1) bs1"
    by (blast dest: content_SomeD)
  from assms(2) obtain s2 c2 bs2 where b: "structs h b = Some s2" "m_chars s2 = Some c2"
    "blocks h c2 = Some bs2" "m_length s2 \<le> length bs2" "ys = take (m_length s2) bs2"
    by (blast dest: content_SomeD)
  let ?l1 = "m_length s1" and ?l2 = "m_length s2"
  let ?P = "\<lambda>(x::char, y::char). x \<noteq> y"
  let ?r = "if ?l1 > ?l2
           then (if memcmp_chars (take ?l2 bs1) (take ?l2 bs2) \<ge> 0 then 1 else - 1)
           else if ?l1 < ?l2
           then (if memcmp_chars (take ?l1 bs1) (take ?l1 bs2) \<le> 0 then - 1 else 1)
           else memcmp_chars (take ?l1 bs1) (take ?l1 bs2)"
  have run: "myStringCompare E (Some a) (Some b) h = Inr (?r, h)"
    using a b
    by (simp add: myStringCompare_def myStringLen_def chars_of_def deref_def memcmp_def rd_def
        bnd_def ret_def EQUAL_STRINGS_def STR1_BIGGER_def STR2_BIGGER_def)
  have lens: "length xs = ?l1" "length ys = ?l2" using a b by simp_all
  have nz: "int (of_char x) - int (of_char y) \<noteq> 0" if "find ?P zs = Some (x, y)" for zs x y
    using find_differs [OF that] by simp
  consider (gt) "?l1 > ?l2" | (lt) "?l1 < ?l2" | (eq) "?l1 = ?l2" by linarith
  then have "sgn ?r = compare_spec xs ys"
  proof cases
    case gt
    have z: "zip (take ?l2 bs1) (take ?l2 bs2) = zip xs ys"
      using gt a b by (metis lens(2) order_refl less_imp_le zip_take_left)
    show ?thesis using gt lens
      by (auto simp: compare_spec_def memcmp_chars_find z sgn_if dest: nz split: option.splits)
  next
    case lt
    have z: "zip (take ?l1 bs1) (take ?l1 bs2) = zip xs ys"
      using lt a b by (metis lens(1) order_refl less_imp_le zip_take_right)
    show ?thesis using lt lens
      by (auto simp: compare_spec_def memcmp_chars_find z sgn_if dest: nz split: option.splits)
  next
    case eq
    have z: "zip (take ?l2 bs1) (take ?l2 bs2) = zip xs ys"
      using eq a b by simp
    show ?thesis using eq lens
      by (auto simp: compare_spec_def memcmp_chars_find z sgn_if dest: nz split: option.splits)
  qed
  moreover have "myStringCompare E None q h = Inr (MYSTR_ERROR_CODE, h)"
    by (simp add: myStringCompare_def ret_def)
  moreover have "myStringCompare E p None h = Inr (MYSTR_ERROR_CODE, h)"
    by (simp add: myStringCompare_def ret_def split: option.splits)
  ultimately show ?thesis using run by simp
qed

theorem myStringCompare_lexicographic_witness:
  "content sample_heap 0 = Some ''abc'' \<and> content sample_heap 2 = Some ''abcd''
   \<and> (\<exists>r. myStringCompare 1 (Some 0) (Some 2) sample_heap = Inr (r, sample_heap) \<and> sgn r = - 1)
   \<and> myStringCompare 1 None (Some 2) sample_heap = Inr (- 999, sample_heap)"
proof -
  have a: "content sample_heap 0 = Some ''abc''" by (rule content_sample)
  have b: "content sample_heap 2 = Some ''abcd''" by (rule content_sample)
  have c: "compare_spec ''abc'' ''abcd'' = - 1"
    by (simp add: compare_spec_def)
  from myStringCompare_lexicographic [OF a b, of 1 "Some 2" None] a b c
  show ?thesis by (simp add: MYSTR_ERROR_CODE_def)
qed

subsection \<open>From a C string and back\<close>

text \<open>For a C string that is not empty the round trip holds: when the allocator grants
  every request, myStringAlloc returns an instance, myStringSetFromCString on it
  succeeds, and myStringToCString returns a new block holding the chars and \<^verbatim>\<open>'\0'\<close>.\<close>

lemma cstring_roundtrip_nonempty:
  assumes "wf_heap h" and "False \<notin> set (grants h)"
    and "END_OF_C_STRING \<notin> set s" and "s \<noteq> []" and "length s + 1 < 2 ^ 64"
  shows "\<exists>p h1 h2 q h3.
      myStringAlloc h = Inr (Some p, h1)
    \<and> myStringSetFromCString (Some p) (Some (s @ END_OF_C_STRING # rest)) h1
         = Inr (MYSTRING_SUCCESS, h2)
    \<and> myStringToCString E (Some p) h2 = Inr (Some q, h3)
    \<and> blocks h3 q = Some (s @ [END_OF_C_STRING])"
proof -
  from myStringAlloc_ok [OF assms(2,1)] obtain h1 where
    1: "myStringAlloc h = Inr (Some (brk h), h1)" "content h1 (brk h) = Some []"
       "False \<notin> set (grants h1)" "wf_heap h1" by blast
  from myStringSetFromCString_ok [OF 1(3) 1(2) 1(4) assms(3,4), of rest] obtain h2 where
    2: "myStringSetFromCString (Some (brk h)) (Some (s @ END_OF_C_STRING # rest)) h1
          = Inr (MYSTRING_SUCCESS, h2)" "content h2 (brk h) = Some s"
       "False \<notin> set (grants h2)" "wf_heap h2" by blast
  from myStringToCString_ok [OF 2(3) 2(2) 2(4) assms(5), of E] obtain q h3 where
    3: "myStringToCString E (Some (brk h)) h2 = Inr (Some q, h3)"
       "blocks h3 q = Some (s @ [END_OF_C_STRING])" by blast
  from 1(1) 2(1) 3 show ?thesis by blast
qed

text \<open>For the empty C string myStringSetFromCString never succeeds, whatever the store
  and the allocator's answers: after emptyStringAlloc the function goes on to
  adjustMyStringLength with size zero.\<close>

lemma myStringSetFromCString_empty_never_succeeds:
  "myStringSetFromCString (Some a) (Some (END_OF_C_STRING # rest)) h
     \<noteq> Inr (MYSTRING_SUCCESS, h')"
proof
  assume "myStringSetFromCString (Some a) (Some (END_OF_C_STRING # rest)) h
     = Inr (MYSTRING_SUCCESS, h')"
  then obtain h1 h2 c r where
    e: "emptyStringAlloc a h = Inr (Some c, h1)"
    and r: "adjustMyStringLength a 0 h1 = Inr (r, h2)" "r \<noteq> MYSTRING_ERROR"
    by (auto simp: myStringSetFromCString_def prog_Inr char_at_def split: if_splits)
  from e obtain st where "structs h1 a = Some st" "m_chars st = Some c"
    "blocks h1 c = Some [END_OF_C_STRING]"
    by (auto simp: emptyStringAlloc_def malloc_def prog_Inr granted_Inr set_chars_Inr
        set_length_Inr wr_Inr chars_of_Inr split: if_splits)
  from adjustMyStringLength_zero [OF this] r show False by simp
qed

text \<open>
  C2. The round trip on the empty C string, from a store with nothing allocated and an
  allocator that grants every request. myStringSetFromCString returns
  \<^verbatim>\<open>MYSTRING_ERROR\<close> and leaves the instance with a NULL buffer and length \<open>0\<close>: it
  allocates the empty buffer and then resizes it to zero chars, which frees it. The
  myStringToCString that follows hands that NULL to memcpy.
\<close>

theorem cstring_roundtrip_empty_fails:
  "outcome (bnd myStringAlloc (\<lambda>str.
       myStringSetFromCString str (Some [CHR 0x00])) empty_heap) = Inr MYSTRING_ERROR
   \<and> outcome (bnd myStringAlloc (\<lambda>str.
       bnd (myStringSetFromCString str (Some [CHR 0x00])) (\<lambda>_. deref 0)) empty_heap)
       = Inr \<lparr>m_chars = None, m_length = 0\<rparr>
   \<and> bnd myStringAlloc (\<lambda>str.
       bnd (myStringSetFromCString str (Some [CHR 0x00])) (\<lambda>_.
       myStringToCString E str)) empty_heap = Inl NullPointer"
  by (simp add: outcome_def myStringAlloc_def malloc_MyString_def emptyStringAlloc_def
      myStringSetFromCString_def myStringToCString_def
      myStringLen_def adjustMyStringLength_def realloc_def malloc_def
      memcpy_def rd_def wr_def chars_of_def deref_def set_chars_def set_length_def
      lift_def char_at_def granted_def bnd_def ret_def ub_def ulong_def
      empty_heap_def END_OF_C_STRING_def EMPTY_STRING_LENGTH_def)

subsection \<open>The terminator check of myStringSetFromCString\<close>



subsection \<open>myStringToInt of NULL\<close>

text \<open>
  C8. For a NULL argument myStringToInt returns the number of the enumerator
  \<^verbatim>\<open>MYSTRING_ERROR\<close>, whatever that number is, where myStringCompare returns
  \<^verbatim>\<open>MYSTR_ERROR_CODE\<close>.
\<close>

theorem myStringToInt_null:
  "myStringToInt E None h = Inr (E, h)
   \<and> myStringCompare E None q h = Inr (MYSTR_ERROR_CODE, h)"
  by (simp add: myStringToInt_def myStringCompare_def ret_def)

subsection \<open>Custom compare\<close>

lemma custom_loop_pure:
  assumes "cmp s1 s2 h = Inr (v, h)"
  shows "custom_loop cmp s1 s2 l1 l2 i h =
     Inr (if i < l1 \<and> i < l2
          then (if v > 0 then Some 1 else if v < 0 then Some (- 1) else None)
          else None, h)"
proof (induction "l1 - i" arbitrary: i)
  case 0
  then show ?case by (subst custom_loop.simps) (simp add: ret_def)
next
  case (Suc k)
  then have "k = l1 - Suc i" by simp
  from Suc(1) [OF this] show ?case
    using assms
    by (subst custom_loop.simps)
       (auto simp add: bnd_def ret_def EQUAL_STRINGS_def STR1_BIGGER_def STR2_BIGGER_def)
qed

lemma custom_loop_none:
  "\<not> (i < l1 \<and> i < l2) \<Longrightarrow> custom_loop cmp s1 s2 l1 l2 i h = Inr (None, h)"
  by (subst custom_loop.simps) (auto simp add: ret_def)

lemma custom_loop_reference:
  "custom_loop cmp s1 s2 l1 l2 i h = reference_loop cmp s1 s2 (min l1 l2 - i) h"
proof (induction "min l1 l2 - i" arbitrary: i h)
  case 0
  then show ?case by (subst custom_loop.simps) (auto simp add: ret_def)
next
  case (Suc k)
  then have k: "k = min l1 l2 - Suc i" and i: "i < l1 \<and> i < l2" by auto
  have s: "min l1 l2 - i = Suc (min l1 l2 - Suc i)" using i by auto
  show ?case
    using i
    by (subst custom_loop.simps, subst s)
       (auto simp add: bnd_def Suc(1) [OF k] EQUAL_STRINGS_def STR1_BIGGER_def
         STR2_BIGGER_def split: sum.splits)
qed

lemma reference_loop_numeral:
  "reference_loop c p q (numeral n) =
     bnd (c p q) (\<lambda>v.
       if v > 0 then ret (Some 1)
       else bnd (c p q) (\<lambda>w.
         if w < 0 then ret (Some (- 1))
         else reference_loop c p q (pred_numeral n)))"
  by (simp add: numeral_eq_Suc)

lemma counting_comparator_run:
  "counting_comparator k vs p q h = (case structs h k of
       None \<Rightarrow> Inl Dangling
     | Some s \<Rightarrow> Inr (if m_length s < length vs then vs ! m_length s else 0,
          h\<lparr>structs := (structs h)(k \<mapsto> s\<lparr>m_length := ulong (m_length s + 1)\<rparr>)\<rparr>))"
  by (simp add: counting_comparator_def deref_def set_length_def bnd_def ret_def
      split: option.splits)

lemma content_counter:
  "content counter_heap 0 = Some ''abc''"
  "content counter_heap 2 = Some ''abcd''"
  "content counter_heap 4 = Some []"
  by (simp_all add: content_def counter_heap_def sample_heap_def)

lemma counter_heap_calls:
  "structs counter_heap 7 = Some \<lparr>m_chars = None, m_length = 0\<rparr>"
  by (simp add: counter_heap_def)

lemma myStringLen_counter:
  "myStringLen E (Some 0) counter_heap = Inr (3, counter_heap)"
  "myStringLen E (Some 2) counter_heap = Inr (4, counter_heap)"
  by (simp_all add: myStringLen_def deref_def bnd_def ret_def counter_heap_def sample_heap_def)

text \<open>
  C4. Let \<open>a\<close> and \<open>b\<close> hold \<open>xs\<close> and \<open>ys\<close>. For every comparator, also one that changes
  the store or faults, myStringCustomCompare run on \<open>a\<close>, \<open>b\<close> and the comparator is
  the reference definition: it goes through the indices below the shorter length, and at
  each applies the comparator to the pair \<open>(a, b)\<close>, returning \<open>1\<close> when the value is
  positive, and otherwise applies it a second time, returning \<open>-1\<close> when that value is
  negative; when no index has returned, the result is the length tie-break. Hence, with
  both strings non-empty and a comparator that, applied to the pair, returns \<open>v\<close> and
  leaves the store as it is, the result is \<open>1\<close> when \<open>v\<close> is positive, \<open>-1\<close> when it is
  negative and the length tie-break otherwise. With either string empty the result is the
  length tie-break and the store is as it was, whatever the comparator is: the comparator
  is not called.
\<close>

theorem myStringCustomCompare_reference:
  assumes "content h a = Some xs" and "content h b = Some ys"
  shows "myStringCustomCompare E (Some a) (Some b) (Some cmp) h
           = customCompare_reference cmp a b xs ys h
       \<and> (xs \<noteq> [] \<and> ys \<noteq> [] \<and> cmp (Some a) (Some b) h = Inr (v, h) \<longrightarrow>
            myStringCustomCompare E (Some a) (Some b) (Some cmp) h =
              Inr (if v > 0 then 1 else if v < 0 then - 1 else length_tiebreak xs ys, h))
       \<and> (xs = [] \<or> ys = [] \<longrightarrow>
            myStringCustomCompare E (Some a) (Some b) (Some cmp) h =
              Inr (length_tiebreak xs ys, h))"
proof -
  from assms(1) obtain s1 c1 bs1 where a: "structs h a = Some s1" "m_chars s1 = Some c1"
    "blocks h c1 = Some bs1" "m_length s1 \<le> length bs1" "xs = take (m_length s1) bs1"
    by (blast dest: content_SomeD)
  from assms(2) obtain s2 c2 bs2 where b: "structs h b = Some s2" "m_chars s2 = Some c2"
    "blocks h c2 = Some bs2" "m_length s2 \<le> length bs2" "ys = take (m_length s2) bs2"
    by (blast dest: content_SomeD)
  have lens: "length xs = m_length s1" "length ys = m_length s2" using a b by simp_all
  have run: "myStringCustomCompare E (Some a) (Some b) (Some cmp) h =
      bnd (custom_loop cmp (Some a) (Some b) (m_length s1) (m_length s2) 0) (\<lambda>r.
           case r of
             Some v \<Rightarrow> ret v
           | None \<Rightarrow>
               if m_length s1 > m_length s2 then ret STR1_BIGGER
               else if m_length s1 < m_length s2 then ret STR2_BIGGER
               else ret EQUAL_STRINGS) h"
    using a b
    by (simp add: myStringCustomCompare_def myStringLen_def deref_def bnd_def ret_def)
  show ?thesis
  proof (intro conjI impI)
    show "myStringCustomCompare E (Some a) (Some b) (Some cmp) h
           = customCompare_reference cmp a b xs ys h"
      using lens
      by (auto simp add: run customCompare_reference_def bnd_def ret_def
          custom_loop_reference length_tiebreak_def
          STR1_BIGGER_def STR2_BIGGER_def EQUAL_STRINGS_def
          split: sum.splits option.splits)
  next
    assume h: "xs \<noteq> [] \<and> ys \<noteq> [] \<and> cmp (Some a) (Some b) h = Inr (v, h)"
    then have pos: "0 < m_length s1" "0 < m_length s2" using lens [symmetric] by auto
    from h have c: "cmp (Some a) (Some b) h = Inr (v, h)" by simp
    show "myStringCustomCompare E (Some a) (Some b) (Some cmp) h =
              Inr (if v > 0 then 1 else if v < 0 then - 1 else length_tiebreak xs ys, h)"
      using pos lens
      by (simp add: run bnd_def
          custom_loop_pure [of cmp "Some a" "Some b" h v, OF c] ret_def length_tiebreak_def
          STR1_BIGGER_def STR2_BIGGER_def EQUAL_STRINGS_def)
  next
    assume "xs = [] \<or> ys = []"
    then have z: "\<not> (0 < m_length s1 \<and> 0 < m_length s2)" using lens [symmetric] by auto
    show "myStringCustomCompare E (Some a) (Some b) (Some cmp) h =
              Inr (length_tiebreak xs ys, h)"
      using lens
      by (simp add: run bnd_def custom_loop_none [OF z] ret_def length_tiebreak_def
          STR1_BIGGER_def STR2_BIGGER_def EQUAL_STRINGS_def)
  qed
qed

text \<open>The theorem at work. On \<open>abc\<close> and \<open>abcd\<close>, a comparator whose first four calls
  return zero and whose fifth returns \<open>7\<close> decides at the third index: the result is \<open>1\<close>
  (the tie-break is \<open>-1\<close>) and the comparator has been called five times. A comparator
  whose second call is negative decides at the first index. The comparator of the unit
  tests leaves the store as it is. With the empty string, a comparator that faults is
  not called.\<close>

theorem myStringCustomCompare_reference_witness:
  "content counter_heap 0 = Some ''abc'' \<and> content counter_heap 2 = Some ''abcd''
   \<and> myStringCustomCompare 1 (Some 0) (Some 2)
        (Some (counting_comparator 7 [0, 0, 0, 0, 7])) counter_heap
       = Inr (1, counter_heap\<lparr>structs := (structs counter_heap)
                 (7 \<mapsto> \<lparr>m_chars = None, m_length = 5\<rparr>)\<rparr>)
   \<and> myStringCustomCompare 1 (Some 0) (Some 2)
        (Some (counting_comparator 7 [0, - 3])) counter_heap
       = Inr (- 1, counter_heap\<lparr>structs := (structs counter_heap)
                 (7 \<mapsto> \<lparr>m_chars = None, m_length = 2\<rparr>)\<rparr>)
   \<and> length_tiebreak ''abc'' ''abcd'' = - 1
   \<and> ''abc'' \<noteq> [] \<and> ''abcd'' \<noteq> []
   \<and> reverseMyStringCompare 1 (Some 0) (Some 2) counter_heap = Inr (1, counter_heap)
   \<and> myStringCustomCompare 1 (Some 0) (Some 2) (Some (reverseMyStringCompare 1)) counter_heap
       = Inr (1, counter_heap)
   \<and> content counter_heap 4 = Some []
   \<and> myStringCustomCompare 1 (Some 0) (Some 4) (Some (\<lambda>p q. ub Dangling)) counter_heap
       = Inr (1, counter_heap)"
proof -
  have n: "Suc (Suc 0) = 2" "Suc (Suc (Suc (Suc (Suc 0)))) = 5" by simp_all
  have c: "reverseMyStringCompare 1 (Some 0) (Some 2) counter_heap = Inr (1, counter_heap)"
    by (simp add: reverseMyStringCompare_def myStringCompare_def myStringLen_def chars_of_def
        deref_def memcmp_def rd_def bnd_def ret_def counter_heap_def sample_heap_def
        EQUAL_STRINGS_def STR1_BIGGER_def STR2_BIGGER_def)
  have r1: "customCompare_reference (counting_comparator 7 [0, 0, 0, 0, 7]) 0 2
        ''abc'' ''abcd'' counter_heap
     = Inr (1, counter_heap\<lparr>structs := (structs counter_heap)
                 (7 \<mapsto> \<lparr>m_chars = None, m_length = 5\<rparr>)\<rparr>)"
    by (simp add: customCompare_reference_def counting_comparator_run counter_heap_calls
        reference_loop_numeral ulong_def bnd_def ret_def n(2))
  have r2: "customCompare_reference (counting_comparator 7 [0, - 3]) 0 2
        ''abc'' ''abcd'' counter_heap
     = Inr (- 1, counter_heap\<lparr>structs := (structs counter_heap)
                 (7 \<mapsto> \<lparr>m_chars = None, m_length = 2\<rparr>)\<rparr>)"
    by (simp add: customCompare_reference_def counting_comparator_run counter_heap_calls
        reference_loop_numeral ulong_def bnd_def ret_def n(1))
  from myStringCustomCompare_reference [OF content_counter(1) content_counter(2),
      of 1 "counting_comparator 7 [0, 0, 0, 0, 7]" 0, THEN conjunct1] r1
  have 1: "myStringCustomCompare 1 (Some 0) (Some 2)
        (Some (counting_comparator 7 [0, 0, 0, 0, 7])) counter_heap
       = Inr (1, counter_heap\<lparr>structs := (structs counter_heap)
                 (7 \<mapsto> \<lparr>m_chars = None, m_length = 5\<rparr>)\<rparr>)"
    by simp
  from myStringCustomCompare_reference [OF content_counter(1) content_counter(2),
      of 1 "counting_comparator 7 [0, - 3]" 0, THEN conjunct1] r2
  have 2: "myStringCustomCompare 1 (Some 0) (Some 2)
        (Some (counting_comparator 7 [0, - 3])) counter_heap
       = Inr (- 1, counter_heap\<lparr>structs := (structs counter_heap)
                 (7 \<mapsto> \<lparr>m_chars = None, m_length = 2\<rparr>)\<rparr>)"
    by simp
  from myStringCustomCompare_reference [OF content_counter(1) content_counter(2),
      of 1 "reverseMyStringCompare 1" 1, THEN conjunct2, THEN conjunct1] c
  have 3: "myStringCustomCompare 1 (Some 0) (Some 2) (Some (reverseMyStringCompare 1))
      counter_heap = Inr (1, counter_heap)" by simp
  from myStringCustomCompare_reference [OF content_counter(1) content_counter(3),
      of 1 "\<lambda>p q. ub Dangling" 0, THEN conjunct2, THEN conjunct2]
  have 4: "myStringCustomCompare 1 (Some 0) (Some 4) (Some (\<lambda>p q. ub Dangling)) counter_heap
       = Inr (1, counter_heap)" by (simp add: length_tiebreak_def)
  from c 1 2 3 4 content_counter show ?thesis by (simp add: length_tiebreak_def)
qed

text \<open>The wording "\<open>-1\<close> if the first application is negative" fails for a comparator with
  a state. On \<open>abc\<close> and \<open>abcd\<close>, with a comparator whose calls return \<open>-5\<close>, \<open>7\<close>, \<open>7\<close>: the
  first application is negative, so the spec's wording gives \<open>-1\<close>; the code, which
  looks only for a positive value in the first call and only for a negative one in the
  second, goes on to the second index and returns \<open>1\<close>.\<close>

theorem myStringCustomCompare_first_application_counterexample:
  "content counter_heap 0 = Some ''abc'' \<and> content counter_heap 2 = Some ''abcd''
   \<and> outcome (counting_comparator 7 [- 5, 7, 7] (Some 0) (Some 2) counter_heap) = Inr (- 5)
   \<and> outcome (customCompare_spec (counting_comparator 7 [- 5, 7, 7]) 0 2 ''abc'' ''abcd''
        counter_heap) = Inr (- 1)
   \<and> outcome (myStringCustomCompare 1 (Some 0) (Some 2)
        (Some (counting_comparator 7 [- 5, 7, 7])) counter_heap) = Inr 1"
proof -
  have 1: "outcome (counting_comparator 7 [- 5, 7, 7] (Some 0) (Some 2) counter_heap)
      = Inr (- 5)"
    by (simp add: outcome_def counting_comparator_run counter_heap_calls)
  have 2: "outcome (customCompare_spec (counting_comparator 7 [- 5, 7, 7]) 0 2 ''abc'' ''abcd''
        counter_heap) = Inr (- 1)"
    by (simp add: outcome_def customCompare_spec_def counting_comparator_run
        counter_heap_calls bnd_def ret_def)
  have 3: "outcome (myStringCustomCompare 1 (Some 0) (Some 2)
        (Some (counting_comparator 7 [- 5, 7, 7])) counter_heap) = Inr 1"
    by (simp add: outcome_def myStringCustomCompare_def myStringLen_counter
        custom_loop_reference reference_loop_numeral counting_comparator_run
        counter_heap_calls ulong_def bnd_def ret_def)
  from 1 2 3 content_counter show ?thesis by simp
qed

subsection \<open>Concatenation in place\<close>

text \<open>
  C5. Let \<open>dest\<close> and \<open>src\<close> hold \<open>xs\<close> and \<open>ys\<close> (they may be the same instance), with a
  summed length that fits an unsigned long. If myStringCat returns
  \<^verbatim>\<open>MYSTRING_SUCCESS\<close>, then \<open>dest\<close> holds \<open>xs\<close> followed by \<open>ys\<close> and its length field is
  the sum of the two lengths. With \<open>ys\<close> empty the call returns \<^verbatim>\<open>MYSTRING_SUCCESS\<close> and
  leaves the whole store as it was.
\<close>

theorem myStringCat_appends:
  assumes "content h d = Some xs" and "content h s = Some ys" and "wf_heap h"
    and "length xs + length ys < 2 ^ 64"
  shows "(myStringCat E (Some d) (Some s) h = Inr (MYSTRING_SUCCESS, h') \<longrightarrow>
            content h' d = Some (xs @ ys)
          \<and> (\<exists>st. structs h' d = Some st \<and> m_length st = length xs + length ys))
       \<and> (ys = [] \<longrightarrow> myStringCat E (Some d) (Some s) h = Inr (MYSTRING_SUCCESS, h))"
proof -
  from assms(1) obtain sd cd bd where d: "structs h d = Some sd" "m_chars sd = Some cd"
    "blocks h cd = Some bd" "m_length sd \<le> length bd" "xs = take (m_length sd) bd"
    by (blast dest: content_SomeD)
  from assms(2) obtain ss cs bs where s: "structs h s = Some ss" "m_chars ss = Some cs"
    "blocks h cs = Some bs" "m_length ss \<le> length bs" "ys = take (m_length ss) bs"
    by (blast dest: content_SomeD)
  have lens: "length xs = m_length sd" "length ys = m_length ss" using d s by simp_all
  have u: "ulong (m_length ss + m_length sd) = m_length ss + m_length sd"
    using assms(4) lens by (simp add: ulong_def add.commute)
  have f: "cd \<noteq> brk h" "d \<noteq> brk h" "cs \<noteq> brk h" "s \<noteq> brk h"
    using wf_heap_blocks [OF assms(3) d(3)] wf_heap_structs [OF assms(3) d(1)]
      wf_heap_blocks [OF assms(3) s(3)] wf_heap_structs [OF assms(3) s(1)] by auto
  have empty: "myStringCat E (Some d) (Some s) h = Inr (MYSTRING_SUCCESS, h)"
    if "m_length ss = 0"
    using that s d
    by (simp add: myStringCat_def deref_def bnd_def ret_def EMPTY_STRING_LENGTH_def)
  have full: "content h' d = Some (xs @ ys)
      \<and> (\<exists>st. structs h' d = Some st \<and> m_length st = length xs + length ys)"
    if run: "myStringCat E (Some d) (Some s) h = Inr (MYSTRING_SUCCESS, h')"
  proof (cases "m_length ss = 0")
    case True
    with empty run have "h' = h" by simp
    with True assms(1) lens d show ?thesis by simp
  next
    case False
    let ?n = "m_length ss + m_length sd"
    have step: "myStringCat E (Some d) (Some s) h =
        bnd (adjustMyStringLength d ?n) (\<lambda>adjustLengthRetVal.
               if adjustLengthRetVal = MYSTRING_ERROR then ret MYSTRING_ERROR
               else
                 bnd (chars_of d) (\<lambda>dc.
                 bnd (chars_of s) (\<lambda>sc.
                 bnd (memcpy dc (m_length sd) sc (m_length ss)) (\<lambda>_.
                 ret MYSTRING_SUCCESS)))) h"
      using False s d u
      by (simp add: myStringCat_def myStringLen_def deref_def bnd_def ret_def
          EMPTY_STRING_LENGTH_def)
    from run have run': "bnd (adjustMyStringLength d ?n) (\<lambda>adjustLengthRetVal.
               if adjustLengthRetVal = MYSTRING_ERROR then ret MYSTRING_ERROR
               else
                 bnd (chars_of d) (\<lambda>dc.
                 bnd (chars_of s) (\<lambda>sc.
                 bnd (memcpy dc (m_length sd) sc (m_length ss)) (\<lambda>_.
                 ret MYSTRING_SUCCESS)))) h = Inr (MYSTRING_SUCCESS, h')"
      by (simp only: step)
    have g: "grants h = [] \<or> hd (grants h)"
    proof (rule ccontr)
      assume "\<not> ?thesis"
      then have "myStringCat E (Some d) (Some s) h
         = Inr (MYSTRING_ERROR,
              h\<lparr>grants := tl (grants h), structs := (structs h)(d \<mapsto> sd\<lparr>m_chars := None\<rparr>)\<rparr>)"
        using False
        by (simp add: step bnd_def ret_def adjustMyStringLength_run [OF d(1,2,3)])
      with run show False by simp
    qed
    show ?thesis
    proof (cases "d = s")
      case True
      with d s have e: "ss = sd" "cs = cd" "bs = bd" by auto
      show ?thesis
        using run' g False True e d f lens s(5)
        by (auto simp add: bnd_def ret_def adjustMyStringLength_run [OF s(1,2,3)]
            chars_of_def deref_def memcpy_def rd_def wr_def content_def take_resized)
    next
      case neq: False
      show ?thesis
      proof (cases "cd = cs")
        case True
        have "myStringCat E (Some d) (Some s) h = Inl Dangling"
          using g False neq True d s f
          by (simp add: step bnd_def ret_def adjustMyStringLength_run [OF d(1,2,3)]
              chars_of_def deref_def memcpy_def rd_def wr_def)
        with run show ?thesis by simp
      next
        case cne: False
        show ?thesis
          using run' g False neq cne d s f lens
          by (auto simp add: bnd_def ret_def adjustMyStringLength_run [OF d(1,2,3)]
              chars_of_def deref_def memcpy_def rd_def wr_def content_def take_resized)
      qed
    qed
  qed
  show ?thesis using empty full lens by auto
qed

theorem myStringCat_appends_witness:
  "content sample_heap 0 = Some ''abc'' \<and> content sample_heap 2 = Some ''abcd''
   \<and> wf_heap sample_heap \<and> length ''abc'' + length ''abcd'' < (2::nat) ^ 64
   \<and> (\<exists>h'. myStringCat 1 (Some 0) (Some 2) sample_heap = Inr (MYSTRING_SUCCESS, h')
          \<and> content h' 0 = Some ''abcabcd'')
   \<and> content sample_heap 4 = Some []
   \<and> myStringCat 1 (Some 0) (Some 4) sample_heap = Inr (MYSTRING_SUCCESS, sample_heap)"
proof -
  have l: "length ''abc'' + length ''abcd'' < (2::nat) ^ 64"
    "length ''abc'' + length ([]::string) < (2::nat) ^ 64" by simp_all
  have "\<exists>h'. myStringCat 1 (Some 0) (Some 2) sample_heap = Inr (MYSTRING_SUCCESS, h')"
    by (simp add: myStringCat_def myStringLen_def adjustMyStringLength_def realloc_def
        memcpy_def rd_def wr_def chars_of_def deref_def set_chars_def set_length_def
        granted_def bnd_def ret_def ulong_def sample_heap_def EMPTY_STRING_LENGTH_def)
  then obtain h' where
    r: "myStringCat 1 (Some 0) (Some 2) sample_heap = Inr (MYSTRING_SUCCESS, h')" ..
  from myStringCat_appends [OF content_sample(1) content_sample(2) wf_heap_sample l(1),
      of 1 h'] r
  have 1: "content h' 0 = Some ''abcabcd''" by simp
  from myStringCat_appends [OF content_sample(1) content_sample(3) wf_heap_sample l(2),
      of 1]
  have 2: "myStringCat 1 (Some 0) (Some 4) sample_heap = Inr (MYSTRING_SUCCESS, sample_heap)"
    by simp
  from r 1 2 content_sample wf_heap_sample l show ?thesis by auto
qed

subsection \<open>Writing to a stream\<close>

text \<open>
  C9. When myStringWrite returns \<^verbatim>\<open>MYSTRING_SUCCESS\<close> for an instance and a stream, the
  stream has been closed.
\<close>

theorem myStringWrite_closes_stream:
  assumes "myStringWrite E (Some a) (Some f) h = Inr (MYSTRING_SUCCESS, h')"
  shows "\<exists>fl. files h' f = Some fl \<and> closed fl"
  using assms
  by (auto simp: myStringWrite_def prog_Inr fprintf_s_def fclose_def free_def
      split: if_splits option.splits)

theorem myStringWrite_closes_stream_witness:
  "\<exists>h'. myStringWrite 1 (Some 0) (Some 6) sample_heap = Inr (MYSTRING_SUCCESS, h')
     \<and> (\<exists>fl. files h' 6 = Some fl \<and> closed fl \<and> written fl = ''abc'')"
proof -
  have "\<exists>h'. myStringWrite 1 (Some 0) (Some 6) sample_heap = Inr (MYSTRING_SUCCESS, h')
     \<and> (\<exists>fl. files h' 6 = Some fl \<and> written fl = ''abc'')"
    by (simp add: myStringWrite_def myStringToCString_def myStringLen_def malloc_def
        memcpy_def rd_def wr_def chars_of_def deref_def fprintf_s_def fclose_def free_def
        object_at_def lift_def granted_def bnd_def ret_def ulong_def sample_heap_def
        END_OF_C_STRING_def)
  then obtain h' fl where
    r: "myStringWrite 1 (Some 0) (Some 6) sample_heap = Inr (MYSTRING_SUCCESS, h')"
       "files h' 6 = Some fl" "written fl = ''abc''" by blast
  from myStringWrite_closes_stream [OF r(1)] r show ?thesis by auto
qed

subsection \<open>Clone\<close>

lemma emptyStringAlloc_Some:
  assumes "emptyStringAlloc x h = Inr (Some c, h')"
  shows "\<exists>st. structs h x = Some st \<and> c = brk h \<and>
     h' = h\<lparr>grants := tl (grants h),
            blocks := (blocks h)(brk h \<mapsto> [END_OF_C_STRING]),
            brk := Suc (brk h),
            structs := (structs h)(x \<mapsto> st\<lparr>m_chars := Some (brk h), m_length := 0\<rparr>)\<rparr>"
  using assms
  by (auto simp: emptyStringAlloc_def malloc_def granted_eq bnd_def ret_def set_chars_def
      set_length_def wr_def chars_of_def deref_def EMPTY_STRING_LENGTH_def
      split: if_splits option.splits sum.splits)

lemma myStringAlloc_Some:
  assumes "myStringAlloc h = Inr (Some p, h')"
  shows "p = brk h \<and>
     h' = h\<lparr>grants := tl (tl (grants h)),
            blocks := (blocks h)(Suc (brk h) \<mapsto> [END_OF_C_STRING]),
            brk := Suc (Suc (brk h)),
            structs := (structs h)(brk h \<mapsto> \<lparr>m_chars = Some (Suc (brk h)), m_length = 0\<rparr>)\<rparr>"
  using assms
  by (auto simp: myStringAlloc_def malloc_MyString_def emptyStringAlloc_def malloc_def
      granted_eq bnd_def ret_def set_chars_def
      set_length_def wr_def chars_of_def deref_def EMPTY_STRING_LENGTH_def
      split: if_splits option.splits sum.splits)

lemma myStringClone_copies:
  assumes "content h a = Some xs" and "wf_heap h"
    and "myStringClone E (Some a) h = Inr (Some p, h1)"
  shows "p \<noteq> a \<and> content h1 p = Some xs \<and> content h1 a = Some xs
     \<and> structs h1 a = structs h a \<and> wf_heap h1
     \<and> (\<exists>sa sp. structs h1 a = Some sa \<and> structs h1 p = Some sp \<and> m_chars sp \<noteq> m_chars sa)"
proof -
  from assms(1) obtain sa ca ba where a: "structs h a = Some sa" "m_chars sa = Some ca"
    "blocks h ca = Some ba" "m_length sa \<le> length ba" "xs = take (m_length sa) ba"
    by (blast dest: content_SomeD)
  have f: "ca < brk h" "a < brk h"
    using wf_heap_blocks [OF assms(2) a(3)] wf_heap_structs [OF assms(2) a(1)] by auto
  from assms(3) obtain q h0 r where
    al: "myStringAlloc h = Inr (q, h0)"
    and st: "myStringSetFromMyString E q (Some a) h0 = Inr (r, h1)"
    and r: "r \<noteq> MYSTRING_ERROR" "q = Some p"
    by (auto simp: myStringClone_def prog_Inr split: if_splits)
  from myStringAlloc_Some [OF al [unfolded r(2)]] have
    p: "p = brk h" and h0: "h0 = h\<lparr>grants := tl (tl (grants h)),
            blocks := (blocks h)(Suc (brk h) \<mapsto> [END_OF_C_STRING]),
            brk := Suc (Suc (brk h)),
            structs := (structs h)(brk h \<mapsto> \<lparr>m_chars = Some (Suc (brk h)), m_length = 0\<rparr>)\<rparr>"
    by auto
  have wf0: "wf_heap h0" using assms(2) by (auto simp: h0 wf_heap_def)
  have a0: "structs h0 a = Some sa" "blocks h0 ca = Some ba"
    using a f by (auto simp: h0)
  have p0: "structs h0 p = Some \<lparr>m_chars = Some (Suc (brk h)), m_length = 0\<rparr>"
    "blocks h0 (Suc (brk h)) = Some [END_OF_C_STRING]" by (auto simp: h0 p)
  show ?thesis
  proof (cases "m_length sa = 0")
    case True
    from st r obtain c where e: "emptyStringAlloc p h0 = Inr (Some c, h1)"
      using a0 True
      by (auto simp: myStringSetFromMyString_def prog_Inr deref_Inr EMPTY_STRING_LENGTH_def
          split: if_splits)
    from emptyStringAlloc_Some [OF e] show ?thesis
      using a0 p0 f p a True wf0
      by (auto simp: content_def wf_heap_def h0)
  next
    case False
    from st r have run: "bnd (adjustMyStringLength p (m_length sa)) (\<lambda>adjustLengthRetVal.
               if adjustLengthRetVal = MYSTRING_ERROR then ret MYSTRING_ERROR
               else
                 bnd (chars_of p) (\<lambda>dst.
                 bnd (chars_of a) (\<lambda>src.
                 bnd (memcpy dst 0 src (m_length sa)) (\<lambda>_.
                 ret MYSTRING_SUCCESS)))) h0 = Inr (r, h1)"
      using a0 False
      by (simp add: myStringSetFromMyString_def myStringLen_def deref_def bnd_def ret_def
          EMPTY_STRING_LENGTH_def)
    have pa: "p \<noteq> a" "Suc (brk h) \<noteq> ca" using f p by auto
    have "h1 = h0\<lparr>grants := tl (grants h0),
          blocks := ((blocks h0)(Suc (brk h) := None))
             (brk h0 \<mapsto> take (m_length sa) ba),
          brk := Suc (brk h0),
          structs := (structs h0)(p \<mapsto> \<lparr>m_chars = Some (brk h0), m_length = m_length sa\<rparr>)\<rparr>"
      using run r(1) a0 a(2,4) pa False wf_heap_blocks [OF wf0 a0(2)]
      by (auto simp add: bnd_def ret_def adjustMyStringLength_run [OF p0(1) _ p0(2)]
          chars_of_def deref_def memcpy_def rd_def wr_def resized_def
          split: if_splits)
    then show ?thesis
      using a0 p0 f p a False wf0
      by (auto simp: content_def wf_heap_def h0)
  qed
qed


lemma memcmp_chars_same: "memcmp_chars xs xs = 0"
  by (induction xs) auto

lemma myStringEqual_same:
  assumes "content h a = Some xs" and "content h b = Some xs"
  shows "myStringEqual E (Some a) (Some b) h = Inr (C_TRUE, h)"
proof -
  from assms(1) obtain s1 c1 bs1 where a: "structs h a = Some s1" "m_chars s1 = Some c1"
    "blocks h c1 = Some bs1" "m_length s1 \<le> length bs1" "xs = take (m_length s1) bs1"
    by (blast dest: content_SomeD)
  from assms(2) obtain s2 c2 bs2 where b: "structs h b = Some s2" "m_chars s2 = Some c2"
    "blocks h c2 = Some bs2" "m_length s2 \<le> length bs2" "xs = take (m_length s2) bs2"
    by (blast dest: content_SomeD)
  have l: "m_length s1 = m_length s2"
    using a(4,5) b(4,5) by (metis length_take min.absorb2)
  have e: "take (m_length s2) bs1 = take (m_length s2) bs2"
    using a(5) b(5) l by simp
  show ?thesis
    using a b l e
    by (simp add: myStringEqual_def myStringCompare_def myStringLen_def chars_of_def
        deref_def memcmp_def rd_def bnd_def ret_def memcmp_chars_same EQUAL_STRINGS_def)
qed

subsection \<open>What calls on the clone leave alone\<close>

lemma triple_bnd:
  "triple P m Q \<Longrightarrow> (\<And>x. triple (Q x) (f x) R) \<Longrightarrow> triple P (bnd m f) R"
  by (auto simp: triple_def bnd_Inr)

lemma triple_ret: "(\<And>h. P h \<Longrightarrow> Q x h) \<Longrightarrow> triple P (ret x) Q"
  by (auto simp: triple_def ret_Inr)

lemma triple_ub: "triple P (ub e) Q"
  by (auto simp: triple_def ub_Inr)

lemma triple_if:
  "(c \<Longrightarrow> triple P m Q) \<Longrightarrow> (\<not> c \<Longrightarrow> triple P n Q) \<Longrightarrow> triple P (if c then m else n) Q"
  by auto

lemma triple_pure: "(C \<Longrightarrow> triple P m Q) \<Longrightarrow> triple (\<lambda>h. P h \<and> C) m Q"
  by (auto simp: triple_def)

lemma triple_post: "triple P m Q' \<Longrightarrow> (\<And>r h. Q' r h \<Longrightarrow> Q r h) \<Longrightarrow> triple P m Q"
  by (auto simp: triple_def)

lemma owned_neq: "guarded G h \<Longrightarrow> owned G x \<Longrightarrow> x \<noteq> g_inst G"
  by (auto simp: guarded_def owned_def)

lemma guarded_structs_upd:
  assumes "guarded G h" and "owned G x" and "m_chars s \<noteq> Some (g_block G)"
  shows "guarded G (h\<lparr>structs := (structs h)(x \<mapsto> s)\<rparr>)"
proof -
  have "x \<noteq> g_inst G" using owned_neq [OF assms(1,2)] .
  then show ?thesis using assms by (simp add: guarded_def)
qed

lemma g_granted: "triple (guarded G) granted (\<lambda>_. guarded G)"
  by (auto simp: triple_def granted_Inr guarded_def)

lemma g_malloc: "triple (guarded G) (malloc n) (\<lambda>q h. guarded G h \<and> q \<noteq> Some (g_block G))"
  by (auto simp: triple_def malloc_def prog_Inr granted_Inr guarded_def split: if_splits)

lemma g_malloc_MyString:
  "triple (guarded G) malloc_MyString (\<lambda>q h. guarded G h \<and> (\<forall>x. q = Some x \<longrightarrow> owned G x))"
  by (auto simp: triple_def malloc_MyString_def prog_Inr granted_Inr guarded_def owned_def
      split: if_splits)

lemma g_realloc:
  "q \<noteq> Some (g_block G) \<Longrightarrow>
   triple (guarded G) (realloc q n) (\<lambda>q' h. guarded G h \<and> q' \<noteq> Some (g_block G))"
  by (cases q)
     (auto simp: triple_def realloc_def malloc_def prog_Inr granted_Inr guarded_def
       split: if_splits option.splits)

lemma g_free: "q \<noteq> Some (g_block G) \<Longrightarrow> triple (guarded G) (free q) (\<lambda>_. guarded G)"
  by (cases q) (auto simp: triple_def free_def prog_Inr guarded_def split: option.splits)

lemma g_free_MyString:
  "owned G x \<Longrightarrow> triple (guarded G) (free_MyString x) (\<lambda>_. guarded G)"
  by (auto simp: triple_def free_MyString_def guarded_def owned_def split: option.splits)

lemma g_deref: "triple (guarded G) (deref x) (\<lambda>_. guarded G)"
  by (auto simp: triple_def deref_Inr)

lemma g_chars_of:
  "triple (guarded G) (chars_of x) (\<lambda>q h. guarded G h \<and> (owned G x \<longrightarrow> q \<noteq> Some (g_block G)))"
  by (auto simp: triple_def chars_of_Inr guarded_def)

lemma g_set_chars:
  "owned G x \<Longrightarrow> c \<noteq> Some (g_block G) \<Longrightarrow>
   triple (guarded G) (set_chars x c) (\<lambda>_. guarded G)"
proof -
  assume o: "owned G x" and c: "c \<noteq> Some (g_block G)"
  show ?thesis
    unfolding triple_def
  proof (intro allI impI)
    fix h r h'
    assume g: "guarded G h" and r: "set_chars x c h = Inr (r, h')"
    from r obtain s where "structs h x = Some s"
      "h' = h\<lparr>structs := (structs h)(x \<mapsto> s\<lparr>m_chars := c\<rparr>)\<rparr>"
      by (auto simp: set_chars_Inr)
    then show "guarded G h'"
      using guarded_structs_upd [OF g o, of "s\<lparr>m_chars := c\<rparr>"] c by simp
  qed
qed

lemma g_set_length:
  "owned G x \<Longrightarrow> triple (guarded G) (set_length x n) (\<lambda>_. guarded G)"
proof -
  assume o: "owned G x"
  show ?thesis
    unfolding triple_def
  proof (intro allI impI)
    fix h r h'
    assume g: "guarded G h" and r: "set_length x n h = Inr (r, h')"
    from r obtain s where s: "structs h x = Some s"
      "h' = h\<lparr>structs := (structs h)(x \<mapsto> s\<lparr>m_length := n\<rparr>)\<rparr>"
      by (auto simp: set_length_Inr)
    from g o s(1) have "m_chars s \<noteq> Some (g_block G)" by (auto simp: guarded_def)
    then show "guarded G h'"
      using guarded_structs_upd [OF g o, of "s\<lparr>m_length := n\<rparr>"] s by simp
  qed
qed

lemma g_wr:
  "q \<noteq> Some (g_block G) \<Longrightarrow> triple (guarded G) (wr q off cs) (\<lambda>_. guarded G)"
  by (auto simp: triple_def wr_Inr guarded_def)

lemma g_rd: "triple (guarded G) (rd q n) (\<lambda>_. guarded G)"
  by (auto simp: triple_def rd_Inr)

lemma g_object_at: "triple (guarded G) (object_at q) (\<lambda>_. guarded G)"
  by (cases q) (auto simp: triple_def object_at_def ub_def split: option.splits)

lemma g_lift: "triple (guarded G) (lift v) (\<lambda>_. guarded G)"
  by (auto simp: triple_def lift_Inr)

lemma g_rd_at: "triple (guarded G) (rd_at q i) (\<lambda>_. guarded G)"
  unfolding rd_at_def by (rule triple_bnd [OF g_object_at g_lift])

lemma g_memcpy:
  "dst \<noteq> Some (g_block G) \<Longrightarrow> triple (guarded G) (memcpy dst off src n) (\<lambda>_. guarded G)"
  unfolding memcpy_def
  by (intro triple_if triple_ub triple_bnd [OF g_rd] g_wr)

lemma g_myStringLen: "triple (guarded G) (myStringLen E q) (\<lambda>_. guarded G)"
  unfolding myStringLen_def
  by (cases q) (auto intro!: triple_ret triple_bnd [OF g_deref])


lemma triple_bnd_pure:
  "triple P m (\<lambda>x h. P' h \<and> C x) \<Longrightarrow> (\<And>x. C x \<Longrightarrow> triple P' (f x) R)
     \<Longrightarrow> triple P (bnd m f) R"
  by (rule triple_bnd, assumption, rule triple_pure)

lemma triple_case_option:
  "(q = None \<Longrightarrow> triple P m Q) \<Longrightarrow> (\<And>x. q = Some x \<Longrightarrow> triple P (f x) Q)
     \<Longrightarrow> triple P (case q of None \<Rightarrow> m | Some x \<Rightarrow> f x) Q"
  by (cases q) auto

lemma triple_case_prod:
  "(\<And>a b. x = (a, b) \<Longrightarrow> triple P (f a b) Q) \<Longrightarrow> triple P (case x of (a, b) \<Rightarrow> f a b) Q"
  by (cases x) auto

lemmas g_step =
  triple_bnd [OF g_granted] triple_bnd_pure [OF g_malloc] triple_bnd_pure [OF g_malloc_MyString]
  triple_bnd_pure [OF g_realloc] triple_bnd [OF g_free] triple_bnd [OF g_free_MyString]
  triple_bnd [OF g_deref] triple_bnd_pure [OF g_chars_of] triple_bnd [OF g_set_chars]
  triple_bnd [OF g_set_length] triple_bnd [OF g_wr] triple_bnd [OF g_rd]
  triple_bnd [OF g_object_at] triple_bnd [OF g_lift] triple_bnd [OF g_rd_at]
  triple_bnd [OF g_memcpy] triple_bnd [OF g_myStringLen]

lemmas g_last =
  triple_post [OF g_malloc] triple_post [OF g_chars_of] triple_post [OF g_free_MyString]
  triple_post [OF g_memcpy] triple_post [OF g_wr]

lemmas g_struct = triple_if triple_ub triple_ret triple_case_option triple_case_prod

lemma g_emptyStringAlloc:
  "owned G x \<Longrightarrow>
   triple (guarded G) (emptyStringAlloc x) (\<lambda>q h. guarded G h \<and> q \<noteq> Some (g_block G))"
  unfolding emptyStringAlloc_def
  by (intro g_step g_struct g_last) auto

lemma g_adjustMyStringLength:
  "owned G x \<Longrightarrow> triple (guarded G) (adjustMyStringLength x n) (\<lambda>_. guarded G)"
  unfolding adjustMyStringLength_def
  by (intro g_step g_struct g_last) auto

lemma g_myStringAlloc:
  "triple (guarded G) myStringAlloc (\<lambda>q h. guarded G h \<and> (\<forall>x. q = Some x \<longrightarrow> owned G x))"
  unfolding myStringAlloc_def
  by (intro g_step g_struct g_last triple_bnd_pure [OF g_emptyStringAlloc]) auto

lemma g_myStringFree:
  "\<forall>x. q = Some x \<longrightarrow> owned G x \<Longrightarrow> triple (guarded G) (myStringFree q) (\<lambda>_. guarded G)"
  unfolding myStringFree_def
  by (intro g_step g_struct g_last) auto

lemma g_count_loop:
  "triple (guarded G) (count_loop filt str k i n) (\<lambda>_. guarded G)"
  by (induction k arbitrary: i n) (auto intro!: g_step g_struct)

lemma g_create_loop:
  "dst \<noteq> Some (g_block G) \<Longrightarrow>
   triple (guarded G) (create_loop filt dst src k i j) (\<lambda>_. guarded G)"
  by (induction k arbitrary: i j) (auto intro!: g_step g_struct)

lemma g_getFilteredStringLength:
  "triple (guarded G) (getFilteredStringLength str filt) (\<lambda>_. guarded G)"
  unfolding getFilteredStringLength_def
  by (intro g_step g_struct g_count_loop)

lemma g_createFilteredString:
  "dst \<noteq> Some (g_block G) \<Longrightarrow>
   triple (guarded G) (createFilteredString dst src filt) (\<lambda>_. guarded G)"
  unfolding createFilteredString_def
  by (intro g_step g_struct g_create_loop)

lemmas g_step2 = g_step
  triple_bnd_pure [OF g_emptyStringAlloc] triple_bnd [OF g_adjustMyStringLength]
  triple_bnd_pure [OF g_myStringAlloc] triple_bnd [OF g_myStringFree]
  triple_bnd [OF g_getFilteredStringLength] triple_bnd [OF g_createFilteredString]

lemma g_sprintf_d:
  "buf \<noteq> Some (g_block G) \<Longrightarrow> triple (guarded G) (sprintf_d buf n) (\<lambda>_. guarded G)"
  unfolding sprintf_d_def
  by (intro g_step2 g_struct g_last) auto

lemma owned_clone: "owned G (g_clone G)"
  by (simp add: owned_def)

lemma triple_bnd_if:
  "triple P (bnd m f) R \<Longrightarrow> triple P (bnd n f) R \<Longrightarrow> triple P (bnd (if c then m else n) f) R"
  by auto

lemma triple_bnd_ret: "triple P (f x) R \<Longrightarrow> triple P (bnd (ret x) f) R"
  by (simp add: triple_def bnd_def ret_def)

lemmas g_rules = g_step2 g_struct g_last triple_bnd_if triple_bnd_ret
  triple_bnd [OF g_sprintf_d]

lemma g_myStringSetFromCString:
  "triple (guarded G) (myStringSetFromCString (Some (g_clone G)) cString) (\<lambda>_. guarded G)"
  unfolding myStringSetFromCString_def
  by (cases cString; simp only: prod.case option.case)
     ((intro g_rules; auto simp: owned_clone)+)

lemma g_myStringSetFromInt:
  "triple (guarded G) (myStringSetFromInt (Some (g_clone G)) n) (\<lambda>_. guarded G)"
  unfolding myStringSetFromInt_def Let_def
  by (simp only: prod.case option.case)
     ((intro g_rules; auto simp: owned_clone)+)

lemma g_myStringSetFromMyString:
  "triple (guarded G) (myStringSetFromMyString E (Some (g_clone G)) other) (\<lambda>_. guarded G)"
  unfolding myStringSetFromMyString_def
  by (cases other; simp only: prod.case option.case)
     ((intro g_rules; auto simp: owned_clone)+)

lemma g_myStringCat:
  "triple (guarded G) (myStringCat E (Some (g_clone G)) src) (\<lambda>_. guarded G)"
  unfolding myStringCat_def
  by (cases src; simp only: prod.case option.case)
     ((intro g_rules; auto simp: owned_clone)+)

lemma g_myStringCatTo:
  "triple (guarded G) (myStringCatTo E str1 str2 (Some (g_clone G))) (\<lambda>_. guarded G)"
  unfolding myStringCatTo_def
  by (cases str1; cases str2; simp only: prod.case option.case)
     ((intro g_rules; auto simp: owned_clone)+)

lemma g_myStringFilter:
  "triple (guarded G) (myStringFilter (Some (g_clone G)) filt) (\<lambda>_. guarded G)"
  unfolding myStringFilter_def
  by (cases filt; simp only: prod.case option.case)
     ((intro g_rules; auto simp: owned_clone)+)

lemma g_mutate: "triple (guarded G) (mutate E (g_clone G) m) (\<lambda>_. guarded G)"
  by (cases m)
     (simp_all add: g_myStringSetFromCString g_myStringSetFromInt g_myStringSetFromMyString
       g_myStringCat g_myStringCatTo g_myStringFilter)

lemma g_mutations: "triple (guarded G) (mutations E (g_clone G) ms) (\<lambda>_. guarded G)"
  by (induction ms) (auto intro!: triple_ret triple_bnd [OF g_mutate])


text \<open>
  C7. Let \<open>a\<close> hold \<open>xs\<close>. When myStringClone returns an instance \<open>p\<close>, then \<open>p\<close> is another
  struct with another buffer, both \<open>a\<close> and \<open>p\<close> hold \<open>xs\<close>, myStringEqual finds them equal,
  and after any list of mutating calls on \<open>p\<close> (set from a C string, an int or another
  instance, filter, concatenation onto \<open>p\<close> or into \<open>p\<close>) that returns, \<open>a\<close> still holds
  \<open>xs\<close> and its struct is what it was.
\<close>

theorem myStringClone_independent:
  assumes "content h a = Some xs" and "wf_heap h"
    and "myStringClone E (Some a) h = Inr (Some p, h1)"
  shows "p \<noteq> a \<and> content h1 a = Some xs \<and> content h1 p = Some xs
     \<and> (\<exists>sa sp. structs h1 a = Some sa \<and> structs h1 p = Some sp \<and> m_chars sp \<noteq> m_chars sa)
     \<and> myStringEqual E (Some a) (Some p) h1 = Inr (C_TRUE, h1)
     \<and> (mutations E p ms h1 = Inr (u, h2) \<longrightarrow>
          content h2 a = Some xs \<and> structs h2 a = structs h a)"
proof -
  from myStringClone_copies [OF assms] obtain sa sp where
    c: "p \<noteq> a" "content h1 p = Some xs" "content h1 a = Some xs"
       "structs h1 a = structs h a" "wf_heap h1"
       "structs h1 a = Some sa" "structs h1 p = Some sp" "m_chars sp \<noteq> m_chars sa"
    by blast
  from c(3,6) obtain ca ba where a: "m_chars sa = Some ca" "blocks h1 ca = Some ba"
    "m_length sa \<le> length ba" "xs = take (m_length sa) ba"
    by (auto dest!: content_SomeD)
  let ?G = "\<lparr>g_inst = a, g_struct = sa, g_block = ca, g_chars = ba, g_clone = p,
    g_base = brk h1\<rparr>"
  have fresh: "structs h1 x = None" if "brk h1 \<le> x" for x
    using that c(5) by (cases "structs h1 x") (auto dest: wf_heap_structs)
  have g1: "guarded ?G h1"
    using c a wf_heap_structs [OF c(5) c(6)] wf_heap_blocks [OF c(5) a(2)] fresh
    by (auto simp: guarded_def owned_def)
  have frame: "content h2 a = Some xs \<and> structs h2 a = structs h a"
    if run: "mutations E p ms h1 = Inr (u, h2)"
  proof -
    have "triple (guarded ?G) (mutations E (g_clone ?G) ms) (\<lambda>_. guarded ?G)"
      by (rule g_mutations)
    with g1 run have "guarded ?G h2" by (auto simp: triple_def)
    moreover have "structs h a = Some sa" using c(4,6) by simp
    ultimately show ?thesis using a by (simp add: guarded_def content_def)
  qed
  from c frame myStringEqual_same [OF c(3,2)] show ?thesis by blast
qed

theorem myStringClone_independent_witness:
  "content sample_heap 0 = Some ''abc'' \<and> wf_heap sample_heap
   \<and> (\<exists>p h1 h2. myStringClone 1 (Some 0) sample_heap = Inr (Some p, h1)
        \<and> p \<noteq> 0 \<and> content h1 p = Some ''abc''
        \<and> mutations 1 p [Cat (Some 2), SetFromCString (Some (''xy'' @ [CHR 0x00]))] h1
            = Inr ((), h2)
        \<and> content h2 p = Some ''xy'' \<and> content h2 0 = Some ''abc'')"
proof -
  let ?ms = "[Cat (Some 2), SetFromCString (Some (''xy'' @ [CHR 0x00]))]"
  have "\<exists>h2. bnd (myStringClone 1 (Some 0))
      (\<lambda>q. case q of None \<Rightarrow> ub NullPointer | Some p \<Rightarrow> bnd (mutations 1 p ?ms) (\<lambda>_. ret p))
      sample_heap = Inr (7, h2) \<and> content h2 7 = Some ''xy''"
    by (simp add: myStringClone_def myStringAlloc_def malloc_MyString_def emptyStringAlloc_def
        myStringSetFromMyString_def myStringCat_def myStringSetFromCString_def
        myStringLen_def adjustMyStringLength_def realloc_def resized_def malloc_def
        memcpy_def rd_def wr_def chars_of_def deref_def set_chars_def set_length_def
        lift_def char_at_def granted_def bnd_def ret_def ulong_def sample_heap_def
        content_def END_OF_C_STRING_def EMPTY_STRING_LENGTH_def)
  then obtain h2 q h1 where
    r: "myStringClone 1 (Some 0) sample_heap = Inr (q, h1)"
       "(case q of None \<Rightarrow> ub NullPointer | Some p \<Rightarrow> bnd (mutations 1 p ?ms) (\<lambda>_. ret p)) h1
          = Inr (7, h2)"
       "content h2 7 = Some ''xy''"
    by (auto simp: bnd_Inr)
  from r(2) have q: "q = Some 7" and m: "mutations 1 7 ?ms h1 = Inr ((), h2)"
    by (auto simp: prog_Inr split: option.splits)
  from myStringClone_independent
    [OF content_sample(1) wf_heap_sample r(1) [unfolded q], of ?ms "()" h2] m
  have "7 \<noteq> (0::nat) \<and> content h1 7 = Some ''abc'' \<and> content h2 0 = Some ''abc''"
    by simp
  with r(1) q m r(3) content_sample(1) wf_heap_sample show ?thesis by blast
qed

subsection \<open>Filter\<close>

text \<open>
  C6. The unit test of myStringFilter, run on exact-size blocks: the string is set from
  \<open>abcz\<close> and filtered with the test's filter. getFilteredStringLength looks for a
  \<^verbatim>\<open>'\0'\<close> in a buffer that holds none and reads past its end. And where a \<^verbatim>\<open>'\0'\<close> does
  follow the content, myStringFilter returns \<^verbatim>\<open>MYSTRING_SUCCESS\<close> with the string's
  buffer freed: the string holds no live chars, and myStringToCString on it reads
  freed storage.
\<close>

theorem myStringFilter_abcz:
  "bnd myStringAlloc (\<lambda>str.
     bnd (myStringSetFromCString str (Some (''abcz'' @ [CHR 0x00]))) (\<lambda>_.
     myStringFilter str (Some filt_test))) empty_heap = Inl OutOfBounds
   \<and> (\<exists>h'. myStringFilter (Some 0) (Some filt_test) slack_heap = Inr (MYSTRING_SUCCESS, h')
         \<and> structs h' 0 = Some \<lparr>m_chars = Some 4, m_length = 2\<rparr>
         \<and> blocks h' 4 = None
         \<and> content h' 0 = None
         \<and> myStringToCString 1 (Some 0) h' = Inl Dangling)"
  by (simp add: myStringFilter_def getFilteredStringLength_def createFilteredString_def
      myStringFree_def free_def free_MyString_def object_at_def rd_at_def
      myStringAlloc_def malloc_MyString_def emptyStringAlloc_def
      myStringSetFromCString_def myStringToCString_def
      myStringLen_def adjustMyStringLength_def realloc_def resized_def malloc_def
      memcpy_def rd_def wr_def chars_of_def deref_def set_chars_def set_length_def
      lift_def char_at_def granted_def bnd_def ret_def ub_def ulong_def
      empty_heap_def slack_heap_def filt_test_def
      content_def END_OF_C_STRING_def EMPTY_STRING_LENGTH_def)

subsection \<open>From an int\<close>

text \<open>getNumOfDigits counts the chars of the decimal text, sign included, and so one
  less than sprintf writes.\<close>

lemma length_dec_nat_step:
  "\<not> n < 10 \<Longrightarrow> length (dec_nat n) = Suc (length (dec_nat (n div 10)))"
  by (subst dec_nat.simps) simp

lemma length_dec_nat_small: "n < 10 \<Longrightarrow> length (dec_nat n) = 1"
  by (subst dec_nat.simps) simp

lemma digits_loop_length:
  "n \<noteq> 0 \<Longrightarrow> digits_loop n d = d + int (length (dec_nat (nat \<bar>n\<bar>)))"
proof (induction n d rule: digits_loop.induct)
  case (1 n d)
  show ?case
  proof (cases "nat \<bar>n\<bar> < 10")
    case True
    then have "n sdiv 10 = 0" by (auto simp: signed_divide_int_def sgn_if abs_if)
    with 1(2) True show ?thesis
      by (subst digits_loop.simps)
         (simp add: digits_loop.simps [of 0] length_dec_nat_small DIGIT_DIVIDER_def)
  next
    case False
    then have nz: "n sdiv 10 \<noteq> 0" by (auto simp: signed_divide_int_def sgn_if abs_if)
    have ab: "nat \<bar>n sdiv 10\<bar> = nat \<bar>n\<bar> div 10"
      by (auto simp: signed_divide_int_def sgn_if abs_if nat_div_distrib)
    from 1(1) [OF 1(2)] nz have "digits_loop (n sdiv 10) (d + 1)
        = d + 1 + int (length (dec_nat (nat \<bar>n sdiv 10\<bar>)))"
      by (simp add: DIGIT_DIVIDER_def)
    with 1(2) False show ?thesis
      by (subst digits_loop.simps) (simp add: length_dec_nat_step ab DIGIT_DIVIDER_def)
  qed
qed

lemma getNumOfDigits_length: "getNumOfDigits n = int (length (dec_int n))"
  by (cases "n = 0")
     (auto simp: getNumOfDigits_def dec_int_def digits_loop_length length_dec_nat_small abs_if)


lemma isdigit_digit: "(d::nat) < 10 \<Longrightarrow> isdigit (char_of (48 + d))"
  by (simp add: isdigit_def)

lemma dec_nat_digits: "c \<in> set (dec_nat m) \<Longrightarrow> isdigit c"
proof (induction m rule: dec_nat.induct)
  case (1 n)
  show ?case
  proof (cases "n < 10")
    case True
    with 1(2) show ?thesis by (subst (asm) dec_nat.simps) (auto simp: isdigit_digit)
  next
    case False
    with 1 show ?thesis by (subst (asm) dec_nat.simps) (auto simp: isdigit_digit)
  qed
qed

lemma dec_nat_nonempty: "dec_nat m \<noteq> []"
  by (subst dec_nat.simps) simp

lemma digits_value_snoc:
  "digits_value acc (cs @ [c]) = 10 * digits_value acc cs + (of_char c - 48)"
  by (induction cs arbitrary: acc) auto

lemma digits_value_dec_nat: "digits_value 0 (dec_nat m) = m"
proof (induction m rule: dec_nat.induct)
  case (1 n)
  show ?case
  proof (cases "n < 10")
    case True
    then show ?thesis by (subst dec_nat.simps) simp
  next
    case False
    with 1 show ?thesis
      by (subst dec_nat.simps) (simp add: digits_value_snoc)
  qed
qed

lemma isdigit_not_space: "isdigit c \<Longrightarrow> \<not> isspace c \<and> c \<noteq> CHR ''-'' \<and> c \<noteq> CHR ''+''"
  by (auto simp: isdigit_def isspace_def)

lemma takeWhile_dec_nat: "takeWhile isdigit (dec_nat m) = dec_nat m"
  by (simp add: dec_nat_digits)

lemma hd_dec_nat: "isdigit (hd (dec_nat m))"
  using dec_nat_nonempty [of m] dec_nat_digits [of "hd (dec_nat m)" m] by simp

lemma dropWhile_dec_nat: "dropWhile isspace (dec_nat m) = dec_nat m"
  using hd_dec_nat [of m] dec_nat_nonempty [of m]
  by (cases "dec_nat m") (auto dest: isdigit_not_space)

text \<open>The text sprintf produces for an int is read back by sscanf as that int.\<close>

lemma sscanf_d_dec_int:
  assumes "- (2 ^ 31) \<le> n" and "n < 2 ^ 31"
  shows "sscanf_d (dec_int n) = Inr (1, Some n)"
proof (cases "n < 0")
  case True
  have sp: "\<not> isspace CHR ''-''" by (simp add: isspace_def)
  show ?thesis
    using True assms sp
    by (simp add: sscanf_d_def dec_int_def Let_def takeWhile_dec_nat dec_nat_nonempty
        digits_value_dec_nat)
next
  case False
  have h: "hd (dec_nat (nat n)) \<noteq> CHR ''-''" "hd (dec_nat (nat n)) \<noteq> CHR ''+''"
    using hd_dec_nat [of "nat n"] by (auto dest: isdigit_not_space)
  show ?thesis
    using False assms h
    by (simp add: sscanf_d_def dec_int_def Let_def takeWhile_dec_nat dec_nat_nonempty
        dropWhile_dec_nat digits_value_dec_nat)
qed

text \<open>For every int and every live instance, myStringSetFromInt does not succeed on
  exact-size blocks: the allocator refuses, or sprintf writes past the end.\<close>

lemma myStringSetFromInt_never_succeeds:
  assumes "content h a = Some xs"
  shows "myStringSetFromInt (Some a) n h = Inl OutOfBounds
     \<or> (\<exists>h'. myStringSetFromInt (Some a) n h = Inr (MYSTRING_ERROR, h'))"
proof -
  from assms obtain st c bs where a: "structs h a = Some st" "m_chars st = Some c"
    "blocks h c = Some bs"
    by (blast dest: content_SomeD)
  have "ulong (nat (getNumOfDigits n)) \<le> length (dec_int n)"
    by (simp add: getNumOfDigits_length ulong_def)
  then show ?thesis
    using a
    by (cases "ulong (nat (getNumOfDigits n)) = 0")
       (simp_all add: myStringSetFromInt_def Let_def bnd_def ret_def
        adjustMyStringLength_zero [OF a]
        adjustMyStringLength_run [OF a] chars_of_def deref_def sprintf_d_def wr_def)
qed


text \<open>
  C3. myStringSetFromInt on a fresh instance, run on exact-size blocks, for \<open>0\<close>, the
  value of the unit test, \<^verbatim>\<open>INT_MAX\<close> and \<^verbatim>\<open>INT_MIN\<close>: the buffer is resized to the
  number of digits (and sign), and sprintf writes that many chars and a terminating
  \<^verbatim>\<open>'\0'\<close>, one char past the end of the buffer.
\<close>

theorem myStringSetFromInt_overflows:
  "bnd myStringAlloc (\<lambda>str. myStringSetFromInt str 0) empty_heap = Inl OutOfBounds
   \<and> bnd myStringAlloc (\<lambda>str. myStringSetFromInt str (- 123456789)) empty_heap
       = Inl OutOfBounds
   \<and> bnd myStringAlloc (\<lambda>str. myStringSetFromInt str 2147483647) empty_heap
       = Inl OutOfBounds
   \<and> bnd myStringAlloc (\<lambda>str. myStringSetFromInt str (- 2147483648)) empty_heap
       = Inl OutOfBounds"
  by (simp add: myStringSetFromInt_def getNumOfDigits_def digits_loop.simps sprintf_d_def
      dec_int_def dec_nat.simps signed_divide_int_def DIGIT_DIVIDER_def
      myStringAlloc_def malloc_MyString_def emptyStringAlloc_def
      adjustMyStringLength_def realloc_def resized_def malloc_def
      wr_def chars_of_def deref_def set_chars_def set_length_def
      granted_def bnd_def ret_def ub_def ulong_def empty_heap_def
      END_OF_C_STRING_def EMPTY_STRING_LENGTH_def)

end
